theory Spec2Isabelle
  imports Complex_Main
begin

section \<open>JavaScript values\<close>

text \<open>
  Tool inputs and the fields of a result are typed \<^verbatim>\<open>any\<close> in the source, so they are
  modelled as JSON-like values. \<open>JUndefined\<close> is the value of an absent property.
  Arrays are not represented: no expression of the control loop reads one.
\<close>

datatype jsval =
    JUndefined
  | JNull
  | JBool bool
  | JNum rat
  | JStr string
  | JObj "(string \<times> jsval) list"

text \<open>The result of \<^verbatim>\<open>Math.round\<close>: a whole number, or \<^verbatim>\<open>NaN\<close>.\<close>

datatype jsnum = Num int | NaN

fun truthy :: "jsval \<Rightarrow> bool" where
  "truthy JUndefined = False"
| "truthy JNull = False"
| "truthy (JBool b) = b"
| "truthy (JNum q) = (q \<noteq> 0)"
| "truthy (JStr s) = (s \<noteq> [])"
| "truthy (JObj fs) = True"

text \<open>
  \<open>get_prop v k\<close> is \<^verbatim>\<open>v.k\<close> for a \<open>v\<close> that is neither \<^verbatim>\<open>null\<close> nor
  \<^verbatim>\<open>undefined\<close>. The source reads the properties \<^verbatim>\<open>seconds\<close>, \<^verbatim>\<open>success\<close> and
  \<^verbatim>\<open>text\<close> only, which no primitive value has.
\<close>

fun get_prop :: "jsval \<Rightarrow> string \<Rightarrow> jsval" where
  "get_prop (JObj fs) k = (case map_of fs k of None \<Rightarrow> JUndefined | Some v \<Rightarrow> v)"
| "get_prop v k = JUndefined"

definition nullish :: "jsval \<Rightarrow> bool" where
  "nullish v = (v = JUndefined \<or> v = JNull)"

text \<open>\<^verbatim>\<open>v?.k\<close>, \<^verbatim>\<open>v ?? d\<close> and \<^verbatim>\<open>v || d\<close>.\<close>

definition opt_chain :: "jsval \<Rightarrow> string \<Rightarrow> jsval" where
  "opt_chain v k = (if nullish v then JUndefined else get_prop v k)"

definition coalesce :: "jsval \<Rightarrow> jsval \<Rightarrow> jsval" where
  "coalesce v d = (if nullish v then d else v)"

definition js_or :: "jsval \<Rightarrow> jsval \<Rightarrow> jsval" where
  "js_or v d = (if truthy v then v else d)"

text \<open>
  \<^verbatim>\<open>Math.round\<close> of a number: the nearest integer, a tie going up. A JavaScript number
  is a double; it is held here as the rational it denotes, and \<^verbatim>\<open>Math.round\<close> of it is
  exact. What is not exact is the arithmetic that produces the number: see \<open>double\<close>
  below.
\<close>

definition js_round :: "rat \<Rightarrow> int" where
  "js_round x = \<lfloor>x + 1 / 2\<rfloor>"

fun js_ge :: "jsnum \<Rightarrow> int \<Rightarrow> bool" where
  "js_ge (Num a) b = (b \<le> a)"
| "js_ge NaN b = False"

definition digit_char :: "nat \<Rightarrow> char" where
  "digit_char d = char_of (48 + d)"

fun show_nat :: "nat \<Rightarrow> string" where
  "show_nat n = (if n < 10 then [digit_char n] else show_nat (n div 10) @ [digit_char (n mod 10)])"

declare show_nat.simps [simp del]

definition show_int :: "int \<Rightarrow> string" where
  "show_int i = (if i < 0 then CHR ''-'' # show_nat (nat (- i)) else show_nat (nat i))"

section \<open>Errors\<close>

text \<open>
  Every value thrown inside \<^verbatim>\<open>execute\<close> or the macro tool. \<open>describe\<close> is
  \<^verbatim>\<open>String(error)\<close>. A decode failure, a tool failure and what a lifecycle hook throws
  come from collaborators and carry their own rendering.
\<close>

datatype error =
    TaskInputError
  | CancellationError
  | DecodeError string
  | ToolNotFoundError "string option"
  | ToolExecutionError string
  | TypeError string
  | HookError string

definition name_text :: "string option \<Rightarrow> string" where
  "name_text n = (case n of None \<Rightarrow> ''undefined'' | Some k \<Rightarrow> k)"

text \<open>
  Modelled from the spec: \<^verbatim>\<open>assert\<close> of \<^verbatim>\<open>./utils/assert\<close> is not among the sources; a
  failed assertion raises an error whose message is the one passed to it.
\<close>

fun describe :: "error \<Rightarrow> string" where
  "describe TaskInputError = ''Error: Task is required''"
| "describe CancellationError = ''Error: AbortError''"
| "describe (DecodeError d) = d"
| "describe (ToolNotFoundError n) =
     ''Error: Tool '' @ name_text n @ '' not found. (@note should have been caught before this!!!)''"
| "describe (ToolExecutionError d) = d"
| "describe (TypeError m) = ''TypeError: '' @ m"
| "describe (HookError m) = m"

section \<open>Data model\<close>

text \<open>
  A tool: its input schema as a parser (\<open>None\<close> when the value does not conform) and its
  executor. The executor is bound to the agent and runs against the page; the page state
  the agent holds is its first argument. \<open>Inl d\<close> is a thrown value whose rendering is
  \<open>d\<close>.
\<close>

record tool =
  inputSchema :: "jsval \<Rightarrow> jsval option"
  execute_tool :: "string \<Rightarrow> jsval \<Rightarrow> string + string"

record Usage =
  promptTokens :: nat
  completionTokens :: nat
  totalTokens :: nat
  cachedTokens :: "nat option"
  reasoningTokens :: "nat option"

record AgentBrain =
  evaluation_previous_goal :: string
  memory :: string
  next_goal :: string

record MacroToolInput =
  mi_evaluation_previous_goal :: "string option"
  mi_memory :: "string option"
  mi_next_goal :: "string option"
  mi_action :: "(string \<times> jsval) list"

record MacroToolResult =
  mt_input :: MacroToolInput
  mt_output :: string

record AgentAction =
  action_name :: "string option"
  action_input :: jsval
  action_output :: string

record AgentHistory =
  brain :: AgentBrain
  action :: AgentAction
  usage :: Usage

record ExecutionResult =
  success :: jsval
  data :: jsval
  result_history :: "AgentHistory list"

record PageAgentConfig =
  customTools :: "(string \<times> tool option) list"

text \<open>
  What the imported modules and the JavaScript engine supply and the sources do not
  contain: \<^verbatim>\<open>MAX_STEPS\<close> of \<^verbatim>\<open>./config/constants\<close>; the built-in \<^verbatim>\<open>tools\<close> of
  \<^verbatim>\<open>./tools\<close>; \<open>double\<close>, the double nearest to a number, which every arithmetic
  operation of the engine applies to its exact result; \<open>showExp\<close>, the rendering of a
  whole number of magnitude \<^verbatim>\<open>1e21\<close> or more, which a template literal prints in exponent
  form; \<^verbatim>\<open>Math.round\<close> of a string concatenated with a number; and the text of the
  engine's TypeError for a property read on \<^verbatim>\<open>null\<close> or \<^verbatim>\<open>undefined\<close>.
\<close>

record deps =
  MAX_STEPS :: nat
  builtin_tools :: "(string \<times> tool) list"
  double :: "rat \<Rightarrow> rat"
  showExp :: "int \<Rightarrow> string"
  roundOfConcat :: "string \<Rightarrow> int \<Rightarrow> jsnum"
  typeErrorText :: "jsval \<Rightarrow> string \<Rightarrow> string"

text \<open>
  \<^verbatim>\<open>a + b\<close> on two accumulator values, and the template-literal rendering of one. The
  sum of two whole numbers is the double nearest to it, itself a whole number; a double
  holds every whole number of magnitude up to \<open>2\<^sup>5\<^sup>3\<close> exactly.
\<close>

fun js_plus :: "deps \<Rightarrow> jsnum \<Rightarrow> jsnum \<Rightarrow> jsnum" where
  "js_plus d (Num a) (Num b) =
     Num (if \<bar>a + b\<bar> \<le> 2 ^ 53 then a + b else \<lfloor>double d (of_int (a + b))\<rfloor>)"
| "js_plus d a b = NaN"

fun show_num :: "deps \<Rightarrow> jsnum \<Rightarrow> string" where
  "show_num d (Num i) = (if \<bar>i\<bar> < 10 ^ 21 then show_int i else showExp d i)"
| "show_num d NaN = ''NaN''"

text \<open>
  The collaborators (panel, mask, event bus, lifecycle hooks) are observed through the
  calls made to them, recorded in order. A lifecycle hook returns or throws, as the
  environment says; it does not touch the agent otherwise.
\<close>

datatype panel_update =
    PInput string
  | PThinking
  | PToolExecuting "string option" jsval
  | POutput jsval
  | PError jsval
  | PCompleted

datatype event =
    OnBeforeTask
  | OnAfterTask ExecutionResult
  | OnBeforeStep nat
  | OnAfterStep nat "AgentHistory list"
  | OnDispose "string option"
  | MaskShow
  | MaskHide
  | MaskDispose
  | PanelShow
  | PanelReset
  | PanelUpdate panel_update
  | PanelDispose
  | CleanUpHighlights
  | UserPrompt nat nat

text \<open>
  The agent. \<open>signals\<close> holds the aborted flag of every \<^verbatim>\<open>AbortController\<close> created so
  far and \<open>abortController\<close> is the index of the current one.
\<close>

record PageAgent =
  config :: PageAgentConfig
  tools :: "(string \<times> tool) list"
  paused :: bool
  disposed :: bool
  task :: string
  taskId :: string
  totalWaitTime :: jsnum
  signals :: "bool list"
  abortController :: nat
  simplifiedHTML :: string
  history :: "AgentHistory list"
  trace :: "event list"

definition emit :: "event \<Rightarrow> PageAgent \<Rightarrow> PageAgent" where
  "emit ev s = s\<lparr>trace := trace s @ [ev]\<rparr>"

definition aborted :: "PageAgent \<Rightarrow> bool" where
  "aborted s = (abortController s < length (signals s) \<and> signals s ! abortController s)"

definition abort :: "PageAgent \<Rightarrow> PageAgent" where
  "abort s = s\<lparr>signals := (signals s)[abortController s := True]\<rparr>"

definition new_AbortController :: "PageAgent \<Rightarrow> PageAgent" where
  "new_AbortController s =
     s\<lparr>abortController := length (signals s), signals := signals s @ [False]\<rparr>"

section \<open>Tool registry\<close>

text \<open>\<^verbatim>\<open>Map.delete\<close> and \<^verbatim>\<open>Map.set\<close> on the registry, kept in insertion order.\<close>

definition map_delete :: "string \<Rightarrow> (string \<times> tool) list \<Rightarrow> (string \<times> tool) list" where
  "map_delete k ts = filter (\<lambda>p. fst p \<noteq> k) ts"

fun map_set :: "string \<Rightarrow> tool \<Rightarrow> (string \<times> tool) list \<Rightarrow> (string \<times> tool) list" where
  "map_set k t [] = [(k, t)]"
| "map_set k t (p # ps) = (if fst p = k then (k, t) # ps else p # map_set k t ps)"

fun customize :: "(string \<times> tool option) \<Rightarrow> (string \<times> tool) list \<Rightarrow> (string \<times> tool) list" where
  "customize (k, None) ts = map_delete k ts"
| "customize (k, Some t) ts = map_set k t ts"

definition constructor :: "deps \<Rightarrow> PageAgentConfig \<Rightarrow> PageAgent" where
  "constructor d cfg =
     \<lparr>config = cfg,
      tools = fold customize (customTools cfg) (builtin_tools d),
      paused = False,
      disposed = False,
      task = [],
      taskId = [],
      totalWaitTime = Num 0,
      signals = [False],
      abortController = 0,
      simplifiedHTML = ''<EMPTY>'',
      history = [],
      trace = []\<rparr>"

text \<open>
  The action schemas of \<^verbatim>\<open>#packMacroTool\<close>: one single-key object schema per registered
  tool, in registry order; the decision schema is their union.
\<close>

definition actionSchemas :: "PageAgent \<Rightarrow> (string \<times> (jsval \<Rightarrow> jsval option)) list" where
  "actionSchemas s = map (\<lambda>p. (fst p, inputSchema (snd p))) (tools s)"

section \<open>Pause, disposal and the environment\<close>

text \<open>
  The loop is cooperative: between two of its awaits other code may use the agent's
  public interface. Those uses are \<open>ext_action\<close>s: setting the pause flag, calling
  \<^verbatim>\<open>dispose\<close>, and deleting an entry of the public \<^verbatim>\<open>tools\<close> map.
\<close>

datatype ext_action = SetPaused bool | CallDispose "string option" | DeleteTool string

definition dispose :: "string option \<Rightarrow> PageAgent \<Rightarrow> PageAgent" where
  "dispose reason s =
     emit (OnDispose reason)
       (abort
         ((emit MaskDispose (emit PanelDispose (emit CleanUpHighlights (s\<lparr>disposed := True\<rparr>))))
            \<lparr>history := []\<rparr>))"

fun apply_ext :: "ext_action \<Rightarrow> PageAgent \<Rightarrow> PageAgent" where
  "apply_ext (SetPaused b) s = s\<lparr>paused := b\<rparr>"
| "apply_ext (CallDispose reason) s = dispose reason s"
| "apply_ext (DeleteTool k) s = s\<lparr>tools := map_delete k (tools s)\<rparr>"

text \<open>
  Modelled from the spec: \<^verbatim>\<open>waitUntil\<close> of \<^verbatim>\<open>./utils\<close> is not among the sources. It
  re-checks the condition it is given at a bounded interval and returns once it holds. The
  list holds what other code does to the agent during each interval; \<open>None\<close> means the
  condition never held, the caller is still blocked.
\<close>

fun waitUntil :: "(PageAgent \<Rightarrow> bool) \<Rightarrow> ext_action list list \<Rightarrow> PageAgent \<Rightarrow> PageAgent option" where
  "waitUntil check [] s = (if check s then Some s else None)"
| "waitUntil check (acts # rest) s =
     (if check s then Some s else waitUntil check rest (fold apply_ext acts s))"

text \<open>
  What the environment does during one step of the loop: what other code does to the
  agent during each interval of the wait at the first suspension point (\<open>polls1\<close>) and
  at the second (\<open>polls2\<close>), during the call of the model client, during the run of the
  tool and during the delay that follows it; the page the tree is refreshed from; what the
  model answers; and the latency \<^verbatim>\<open>Date.now() - startTime\<close> of the tool in
  milliseconds. \<open>task_uid\<close> is the \<^verbatim>\<open>uid()\<close> drawn for the task.

  A call of a lifecycle hook is described by its outcome: \<open>None\<close> when the hook returns,
  which is what the default hook \<^verbatim>\<open>() => void 0\<close> of an agent configured without it
  does, and \<open>Some m\<close> when it throws a value whose rendering is \<open>m\<close>.
  \<^verbatim>\<open>onAfterTask\<close> is called at two places: at the end of the \<^verbatim>\<open>try\<close> block, on the
  terminal-tool and step-limit paths (\<open>after_task\<close>), and in the \<^verbatim>\<open>catch\<close> handler
  (\<open>after_task_caught\<close>).
\<close>

datatype llm_response =
    Undecodable string
  | ModelOutput MacroToolInput Usage

record step_env =
  before_step :: "string option"
  polls1 :: "ext_action list list"
  page :: string
  during_llm :: "ext_action list"
  response :: llm_response
  polls2 :: "ext_action list list"
  during_tool :: "ext_action list"
  duration :: int
  during_delay :: "ext_action list"
  after_step :: "string option"

record task_env =
  task_uid :: string
  before_task :: "string option"
  steps :: "step_env list"
  after_task :: "string option"
  after_task_caught :: "string option"

section \<open>The macro tool\<close>

definition nl :: string where
  "nl = [CHR 0x0A]"

text \<open>
  \<^verbatim>\<open>Math.round(toolInput.seconds + duration / 1000)\<close>: the quotient and the sum are
  doubles.
\<close>

definition wait_increment :: "deps \<Rightarrow> jsval \<Rightarrow> int \<Rightarrow> error + jsnum" where
  "wait_increment d toolInput dur =
     (if nullish toolInput then Inl (TypeError (typeErrorText d toolInput ''seconds''))
      else (case get_prop toolInput ''seconds'' of
              JNum q \<Rightarrow> Inr (Num (js_round (double d (q + double d (of_int dur / 1000)))))
            | JNull \<Rightarrow> Inr (Num (js_round (double d (of_int dur / 1000))))
            | JBool b \<Rightarrow>
                Inr (Num (js_round (double d ((if b then 1 else 0) + double d (of_int dur / 1000)))))
            | JUndefined \<Rightarrow> Inr NaN
            | JStr str \<Rightarrow> Inr (roundOfConcat d str dur)
            | JObj fs \<Rightarrow> Inr NaN))"

definition wait_report :: "deps \<Rightarrow> jsnum \<Rightarrow> string" where
  "wait_report d w =
     nl @ ''<sys> You have waited '' @ show_num d w @ '' seconds accumulatively.''"

definition wait_advice :: string where
  "wait_advice = nl @ ''Do NOT wait any longer unless you have a good reason.'' @ nl"

text \<open>Lines 342 to 351: the wait accounting, on the result of the tool.\<close>

definition account_wait ::
  "deps \<Rightarrow> string option \<Rightarrow> jsval \<Rightarrow> int \<Rightarrow> string \<Rightarrow> PageAgent \<Rightarrow> error + (string \<times> PageAgent)" where
  "account_wait d toolName toolInput dur result s =
     (if toolName = Some ''wait'' then
        (case wait_increment d toolInput dur of
           Inl err \<Rightarrow> Inl err
         | Inr inc \<Rightarrow>
             let w = js_plus d (totalWaitTime s) inc
             in Inr (result @ wait_report d w
                       @ (if js_ge w 3 then wait_advice else []) @ ''</sys>'',
                     s\<lparr>totalWaitTime := w\<rparr>))
      else Inr (result, s\<lparr>totalWaitTime := Num 0\<rparr>))"

definition first_key :: "(string \<times> jsval) list \<Rightarrow> string option" where
  "first_key act = (case act of [] \<Rightarrow> None | p # ps \<Rightarrow> Some (fst p))"

definition first_value :: "(string \<times> jsval) list \<Rightarrow> jsval" where
  "first_value act = (case act of [] \<Rightarrow> JUndefined | p # ps \<Rightarrow> snd p)"

definition tools_get :: "PageAgent \<Rightarrow> string option \<Rightarrow> tool option" where
  "tools_get s n = (case n of None \<Rightarrow> None | Some k \<Rightarrow> map_of (tools s) k)"

text \<open>
  The two lines that open both suspension points (177 to 180 and 301 to 304): the abort
  check, then the wait for the pause flag to clear. \<open>None\<close>: still blocked when the
  described environment ends.
\<close>

definition checkpoint :: "ext_action list list \<Rightarrow> PageAgent \<Rightarrow> (error + PageAgent) option" where
  "checkpoint polls s =
     (if aborted s then Some (Inl CancellationError)
      else map_option Inr (waitUntil (\<lambda>a. \<not> paused a) polls s))"

text \<open>Lines 326 to 373 of the macro tool: the tool found in the registry is run.\<close>

definition run_tool ::
  "deps \<Rightarrow> step_env \<Rightarrow> MacroToolInput \<Rightarrow> tool \<Rightarrow> PageAgent \<Rightarrow> (error + MacroToolResult) \<times> PageAgent" where
  "run_tool d e inp t s2 =
     (let toolName = first_key (mi_action inp);
          toolInput = first_value (mi_action inp);
          s3 = emit (PanelUpdate (PToolExecuting toolName toolInput)) s2;
          s4 = fold apply_ext (during_tool e) s3
      in (case execute_tool t (simplifiedHTML s3) toolInput of
            Inl thrown \<Rightarrow> (Inl (ToolExecutionError thrown), s4)
          | Inr result \<Rightarrow>
              (case account_wait d toolName toolInput (duration e) result s4 of
                 Inl err \<Rightarrow> (Inl err, s4)
               | Inr (result', s5) \<Rightarrow>
                   (Inr \<lparr>mt_input = inp, mt_output = result'\<rparr>,
                    fold apply_ext (during_delay e) s5))))"

text \<open>Lines 306 to 324: the selected tool is looked up, and asserted to exist.\<close>

definition dispatch ::
  "deps \<Rightarrow> step_env \<Rightarrow> MacroToolInput \<Rightarrow> PageAgent \<Rightarrow> (error + MacroToolResult) \<times> PageAgent" where
  "dispatch d e inp s1 =
     (let s2 = emit (PanelUpdate PThinking) s1
      in (case tools_get s2 (first_key (mi_action inp)) of
            None \<Rightarrow> (Inl (ToolNotFoundError (first_key (mi_action inp))), s2)
          | Some t \<Rightarrow> run_tool d e inp t s2))"

text \<open>
  The \<^verbatim>\<open>execute\<close> of the macro tool (lines 300 to 373). \<open>None\<close>: blocked at the pause
  check for as long as the environment is described.
\<close>

definition macro_execute ::
  "deps \<Rightarrow> step_env \<Rightarrow> MacroToolInput \<Rightarrow> PageAgent \<Rightarrow> ((error + MacroToolResult) \<times> PageAgent) option" where
  "macro_execute d e inp s =
     (case checkpoint (polls2 e) s of
        None \<Rightarrow> None
      | Some (Inl err) \<Rightarrow> Some (Inl err, s)
      | Some (Inr s1) \<Rightarrow> Some (dispatch d e inp s1))"

section \<open>The model client\<close>

definition schema_mismatch :: string where
  "schema_mismatch = ''DecodeError: output does not match the decision schema''"

text \<open>
  Modelled from the spec: the model client of \<^verbatim>\<open>./llms\<close> is not among the sources.
  Decoding accepts an action with exactly one key, that key naming a variant of the schema
  whose input shape accepts the value; anything else is a decode error.
\<close>

definition decode ::
  "(string \<times> (jsval \<Rightarrow> jsval option)) list \<Rightarrow> MacroToolInput \<Rightarrow> error + MacroToolInput" where
  "decode schemas raw =
     (case mi_action raw of
        [] \<Rightarrow> Inl (DecodeError schema_mismatch)
      | p # ps \<Rightarrow>
          if ps \<noteq> [] then Inl (DecodeError schema_mismatch)
          else (case map_of schemas (fst p) of
                  None \<Rightarrow> Inl (DecodeError schema_mismatch)
                | Some parse \<Rightarrow>
                    (case parse (snd p) of
                       None \<Rightarrow> Inl (DecodeError schema_mismatch)
                     | Some v \<Rightarrow> Inr (raw\<lparr>mi_action := [(fst p, v)]\<rparr>))))"

text \<open>
  Modelled from the spec: \<^verbatim>\<open>invoke\<close> of the model client. It rejects at once when the
  token it is given is already cancelled, decodes the model's output against the schema,
  runs the macro tool on the decoded decision and returns the tool result with the usage.
\<close>

definition invoke ::
  "deps \<Rightarrow> step_env \<Rightarrow> PageAgent \<Rightarrow> ((error + (MacroToolResult \<times> Usage)) \<times> PageAgent) option" where
  "invoke d e s =
     (if aborted s then Some (Inl CancellationError, s)
      else
        (case response e of
           Undecodable text \<Rightarrow> Some (Inl (DecodeError text), fold apply_ext (during_llm e) s)
         | ModelOutput raw u \<Rightarrow>
             (case decode (actionSchemas s) raw of
                Inl err \<Rightarrow> Some (Inl err, fold apply_ext (during_llm e) s)
              | Inr inp \<Rightarrow>
                  (case macro_execute d e inp (fold apply_ext (during_llm e) s) of
                     None \<Rightarrow> None
                   | Some (Inl err, s2) \<Rightarrow> Some (Inl err, s2)
                   | Some (Inr res, s2) \<Rightarrow> Some (Inr (res, u), s2)))))"

section \<open>The step loop\<close>

definition or_empty :: "string option \<Rightarrow> string" where
  "or_empty x = (case x of None \<Rightarrow> [] | Some t \<Rightarrow> t)"

text \<open>
  \<^verbatim>\<open>#assembleUserPrompt\<close>, as far as the agent is concerned: the tree is refreshed
  from the page, and the prompt announces step \<^verbatim>\<open>history.length + 1\<close> of
  \<^verbatim>\<open>MAX_STEPS\<close>. The request is recorded with these two numbers.
\<close>

definition assembleUserPrompt :: "deps \<Rightarrow> step_env \<Rightarrow> PageAgent \<Rightarrow> PageAgent" where
  "assembleUserPrompt d e s =
     emit (UserPrompt (length (history s) + 1) (MAX_STEPS d))
       ((emit CleanUpHighlights s)\<lparr>simplifiedHTML := page e\<rparr>)"

text \<open>Lines 204 to 228: the step record is appended to the ledger.\<close>

definition record_step :: "nat \<Rightarrow> MacroToolResult \<Rightarrow> Usage \<Rightarrow> PageAgent \<Rightarrow> AgentAction \<times> PageAgent" where
  "record_step step res u s4 =
     (let inp = mt_input res;
          b = \<lparr>evaluation_previous_goal = or_empty (mi_evaluation_previous_goal inp),
               memory = or_empty (mi_memory inp),
               next_goal = or_empty (mi_next_goal inp)\<rparr>;
          act = \<lparr>action_name = first_key (mi_action inp),
                 action_input = first_value (mi_action inp),
                 action_output = mt_output res\<rparr>;
          s5 = s4\<lparr>history := history s4 @ [\<lparr>brain = b, action = act, usage = u\<rparr>]\<rparr>
      in (act, emit (OnAfterStep step (history s5)) s5))"

text \<open>
  Lines 182 to 228: the decision request and what follows it. The after-step hook is
  called once the record is in the ledger.
\<close>

definition request_decision ::
  "deps \<Rightarrow> step_env \<Rightarrow> nat \<Rightarrow> PageAgent \<Rightarrow> ((error + AgentAction) \<times> PageAgent) option" where
  "request_decision d e step s2 =
     (case invoke d e (assembleUserPrompt d e (emit (PanelUpdate PThinking) s2)) of
        None \<Rightarrow> None
      | Some (Inl err, s4) \<Rightarrow> Some (Inl err, s4)
      | Some (Inr (res, u), s4) \<Rightarrow>
          (case record_step step res u s4 of
             (act, s5) \<Rightarrow>
               (case after_step e of
                  None \<Rightarrow> Some (Inr act, s5)
                | Some m \<Rightarrow> Some (Inl (HookError m), s5))))"

text \<open>
  One iteration of the loop up to the after-step hook (lines 173 to 228). \<open>Inl\<close> is a
  value thrown inside the \<^verbatim>\<open>try\<close>; \<open>None\<close> is a step still blocked at a pause check.
\<close>

definition step_body ::
  "deps \<Rightarrow> step_env \<Rightarrow> nat \<Rightarrow> PageAgent \<Rightarrow> ((error + AgentAction) \<times> PageAgent) option" where
  "step_body d e step s =
     (let s1 = emit (OnBeforeStep step) s
      in (case before_step e of
            Some m \<Rightarrow> Some (Inl (HookError m), s1)
          | None \<Rightarrow>
              (case checkpoint (polls1 e) s1 of
                 None \<Rightarrow> None
               | Some (Inl err) \<Rightarrow> Some (Inl err, s1)
               | Some (Inr s2) \<Rightarrow> request_decision d e step s2)))"

definition onDone :: "jsval \<Rightarrow> jsval \<Rightarrow> PageAgent \<Rightarrow> PageAgent" where
  "onDone text ok s =
     abort
       (emit MaskHide
         (emit (PanelUpdate PCompleted)
           (emit (PanelUpdate (if truthy ok then POutput text else PError text))
             (emit CleanUpHighlights s))))"

text \<open>
  The three places where \<^verbatim>\<open>execute\<close> ends a task do the same: the notification, the
  result built from the ledger, the call of the after-task hook with that result.
\<close>

definition conclude :: "jsval \<Rightarrow> jsval \<Rightarrow> PageAgent \<Rightarrow> ExecutionResult \<times> PageAgent" where
  "conclude ok text s =
     (let s1 = onDone text ok s;
          r = \<lparr>success = ok, data = text, result_history = history s1\<rparr>
      in (r, emit (OnAfterTask r) s1))"

text \<open>
  The result is returned when the hook returns; what the hook throws is thrown from the
  place of the call.
\<close>

definition finish ::
  "string option \<Rightarrow> jsval \<Rightarrow> jsval \<Rightarrow> PageAgent \<Rightarrow> (error + ExecutionResult) \<times> PageAgent" where
  "finish hook ok text s =
     (case conclude ok text s of
        (r, s2) \<Rightarrow> (case hook of None \<Rightarrow> (Inr r, s2) | Some m \<Rightarrow> (Inl (HookError m), s2)))"

definition limit_message :: string where
  "limit_message = ''Step count exceeded maximum limit''"

text \<open>
  The \<^verbatim>\<open>while (true)\<close> of \<^verbatim>\<open>execute\<close>, inside the \<^verbatim>\<open>try\<close>, one \<open>step_env\<close> per
  iteration; \<open>hook\<close> is the outcome of the after-task hook called at the end of the
  \<^verbatim>\<open>try\<close> block. \<open>Inl\<close> is a value thrown inside the \<^verbatim>\<open>try\<close>. \<open>None\<close>: the loop has
  not ended within the described environment.
\<close>

fun loop ::
  "deps \<Rightarrow> string option \<Rightarrow> step_env list \<Rightarrow> nat \<Rightarrow> PageAgent \<Rightarrow>
     ((error + ExecutionResult) \<times> PageAgent) option" where
  "loop d hook [] step s = None"
| "loop d hook (e # es) step s =
     (case step_body d e step s of
        None \<Rightarrow> None
      | Some (Inl err, s1) \<Rightarrow> Some (Inl err, s1)
      | Some (Inr act, s1) \<Rightarrow>
          if step + 1 > MAX_STEPS d then
            Some (finish hook (JBool False) (JStr limit_message) s1)
          else if action_name act = Some ''done'' then
            Some (finish hook
                    (coalesce (opt_chain (action_input act) ''success'') (JBool False))
                    (js_or (opt_chain (action_input act) ''text'') (JStr ''no text provided''))
                    s1)
          else loop d hook es (step + 1) s1)"

text \<open>Lines 141 to 149: the task fields are set and the before-task hook is called.\<close>

definition announce_task :: "string \<Rightarrow> string \<Rightarrow> PageAgent \<Rightarrow> PageAgent" where
  "announce_task t uid s = emit OnBeforeTask (s\<lparr>task := t, taskId := uid\<rparr>)"

text \<open>
  Lines 141 to 167: what \<^verbatim>\<open>execute\<close> does before the \<^verbatim>\<open>try\<close>, when the before-task
  hook returns.
\<close>

definition begin_task :: "string \<Rightarrow> string \<Rightarrow> PageAgent \<Rightarrow> PageAgent" where
  "begin_task t uid s =
     (new_AbortController
        (abort
          (emit (PanelUpdate (PInput t))
            (emit PanelReset
              (emit PanelShow
                (emit MaskShow (announce_task t uid s)))))))
       \<lparr>history := []\<rparr>"

text \<open>
  \<^verbatim>\<open>execute\<close>. \<open>Inl\<close> is a fault thrown to the caller, \<open>Inr\<close> the returned result.
  The before-task hook is called outside the \<^verbatim>\<open>try\<close>: what it throws reaches the caller.
  What the loop throws is caught; the handler concludes the task with the rendering of the
  thrown value and calls the after-task hook in its turn.
\<close>

definition execute ::
  "deps \<Rightarrow> task_env \<Rightarrow> string \<Rightarrow> PageAgent \<Rightarrow> ((error + ExecutionResult) \<times> PageAgent) option" where
  "execute d env t s =
     (if t = [] then Some (Inl TaskInputError, s)
      else
        (case before_task env of
           Some m \<Rightarrow> Some (Inl (HookError m), announce_task t (task_uid env) s)
         | None \<Rightarrow>
             (case loop d (after_task env) (steps env) 0 (begin_task t (task_uid env) s) of
                None \<Rightarrow> None
              | Some (Inr r, s1) \<Rightarrow> Some (Inr r, s1)
              | Some (Inl err, s1) \<Rightarrow>
                  Some (finish (after_task_caught env) (JBool False) (JStr (describe err)) s1))))"

section \<open>Notions used to state the properties\<close>

text \<open>How many times the completion notification of \<^verbatim>\<open>#onDone\<close> has been sent.\<close>

definition done_count :: "PageAgent \<Rightarrow> nat" where
  "done_count s = length (filter (\<lambda>ev. ev = PanelUpdate PCompleted) (trace s))"

text \<open>
  What no part of a step changes: the current controller, the number of controllers and
  the number of completion notifications; a cancelled controller stays cancelled and no
  name enters the registry. The ledger grows by the record of the step, at most; \<open>n\<close>
  bounds its growth.
\<close>

definition frame :: "nat \<Rightarrow> PageAgent \<Rightarrow> PageAgent \<Rightarrow> bool" where
  "frame n s s' \<longleftrightarrow>
     abortController s' = abortController s \<and>
     length (signals s') = length (signals s) \<and>
     fst ` set (tools s') \<subseteq> fst ` set (tools s) \<and>
     done_count s' = done_count s \<and>
     length (history s') \<le> length (history s) + n \<and>
     (\<forall>i < length (signals s). signals s ! i \<longrightarrow> signals s' ! i)"

text \<open>
  A run of consecutive steps, each of which completes without a thrown value and selects a
  tool other than \<^verbatim>\<open>done\<close>; the state after the last one.
\<close>

fun steps_run :: "deps \<Rightarrow> step_env list \<Rightarrow> nat \<Rightarrow> PageAgent \<Rightarrow> PageAgent option" where
  "steps_run d [] step s = Some s"
| "steps_run d (e # es) step s =
     (case step_body d e step s of
        Some (Inr act, s1) \<Rightarrow>
          if action_name act = Some ''done'' then None else steps_run d es (step + 1) s1
      | _ \<Rightarrow> None)"

text \<open>A step during which the agent is not disposed of.\<close>

fun is_dispose :: "ext_action \<Rightarrow> bool" where
  "is_dispose (CallDispose reason) = True"
| "is_dispose a = False"

definition undisposed :: "step_env \<Rightarrow> bool" where
  "undisposed e =
     (\<not> list_ex is_dispose
          (concat (polls1 e) @ during_llm e @ concat (polls2 e) @ during_tool e @ during_delay e))"

text \<open>What a call of \<^verbatim>\<open>execute\<close> returned: success, data and the length of the history.\<close>

definition returned ::
  "((error + ExecutionResult) \<times> PageAgent) option \<Rightarrow> (jsval \<times> jsval \<times> nat) option" where
  "returned x =
     (case x of
        Some (Inr r, s) \<Rightarrow> Some (success r, data r, length (result_history r))
      | _ \<Rightarrow> None)"

text \<open>The agent after the given intervals of a wait have passed.\<close>

definition after_intervals :: "ext_action list list \<Rightarrow> PageAgent \<Rightarrow> PageAgent" where
  "after_intervals polls s = fold (\<lambda>acts. fold apply_ext acts) polls s"

section \<open>A concrete agent and environment\<close>

definition ok_tool :: tool where
  "ok_tool = \<lparr>inputSchema = Some, execute_tool = (\<lambda>pg v. Inr ''ok'')\<rparr>"

definition failing_tool :: tool where
  "failing_tool = \<lparr>inputSchema = Some, execute_tool = (\<lambda>pg v. Inl ''Error: element not found'')\<rparr>"

definition deps0 :: deps where
  "deps0 =
     \<lparr>MAX_STEPS = 2,
      builtin_tools =
        [(''click'', ok_tool), (''wait'', ok_tool), (''done'', ok_tool),
         (''ask_user'', ok_tool), (''scroll'', failing_tool)],
      double = (\<lambda>x. x),
      showExp = (\<lambda>i. ''1e+21''),
      roundOfConcat = (\<lambda>str dur. NaN),
      typeErrorText = (\<lambda>v k. ''Cannot read properties of undefined'')\<rparr>"

definition usage0 :: Usage where
  "usage0 =
     \<lparr>promptTokens = 10, completionTokens = 5, totalTokens = 15,
      cachedTokens = None, reasoningTokens = None\<rparr>"

definition decide :: "string \<Rightarrow> jsval \<Rightarrow> MacroToolInput" where
  "decide k v =
     \<lparr>mi_evaluation_previous_goal = None, mi_memory = None, mi_next_goal = None,
      mi_action = [(k, v)]\<rparr>"

text \<open>
  A step during which nothing else touches the agent, no hook throws and the tool takes no
  time.
\<close>

definition quiet :: "llm_response \<Rightarrow> step_env" where
  "quiet r =
     \<lparr>before_step = None, polls1 = [], page = ''<EMPTY>'', during_llm = [], response = r,
      polls2 = [], during_tool = [], duration = 0, during_delay = [], after_step = None\<rparr>"

definition selects :: "string \<Rightarrow> jsval \<Rightarrow> step_env" where
  "selects k v = quiet (ModelOutput (decide k v) usage0)"

definition agent0 :: PageAgent where
  "agent0 = constructor deps0 \<lparr>customTools = []\<rparr>"

text \<open>A task during which no task hook throws.\<close>

definition plain_task :: "string \<Rightarrow> step_env list \<Rightarrow> task_env" where
  "plain_task uid es =
     \<lparr>task_uid = uid, before_task = None, steps = es, after_task = None,
      after_task_caught = None\<rparr>"

text \<open>Environments of the concrete runs below.\<close>

definition env_done :: task_env where
  "env_done =
     plain_task ''task-1''
       [selects ''click'' (JObj []),
        selects ''done'' (JObj [(''success'', JBool True), (''text'', JStr ''X'')])]"

definition env_limit :: task_env where
  "env_limit =
     plain_task ''task-1''
       [selects ''click'' (JObj []), selects ''click'' (JObj []),
        selects ''done'' (JObj [(''success'', JBool True), (''text'', JStr ''X'')])]"

definition env_undecodable :: task_env where
  "env_undecodable =
     plain_task ''task-1''
       [selects ''wait'' (JObj [(''seconds'', JNum 2)]),
        quiet (Undecodable ''SyntaxError: Unexpected end of JSON input'')]"

definition env_done_empty :: task_env where
  "env_done_empty = plain_task ''task-1'' [selects ''done'' (JObj [])]"

definition env_done_blank :: task_env where
  "env_done_blank =
     plain_task ''task-1''
       [selects ''done'' (JObj [(''success'', JBool True), (''text'', JStr [])])]"

definition env_tool_fails :: task_env where
  "env_tool_fails =
     plain_task ''task-1''
       [selects ''click'' (JObj []), selects ''scroll'' (JObj [])]"

text \<open>The agent is disposed of while the first tool runs.\<close>

definition env_disposed :: task_env where
  "env_disposed =
     plain_task ''task-1''
       [(selects ''click'' (JObj []))\<lparr>during_tool := [CallDispose None]\<rparr>,
        selects ''click'' (JObj [])]"

text \<open>Two waits, of 2 and of 1 second, then another tool, then the terminal tool.\<close>

definition env_waits :: task_env where
  "env_waits =
     plain_task ''task-1''
       [selects ''wait'' (JObj [(''seconds'', JNum 2)]),
        selects ''wait'' (JObj [(''seconds'', JNum 1)]),
        selects ''click'' (JObj []),
        selects ''done'' (JObj [(''success'', JBool True), (''text'', JStr ''X'')])]"

text \<open>
  The agent is disposed of during the first interval of the wait at the first suspension
  point, and nothing else happens in the two intervals that follow.
\<close>

definition env_disposed_while_paused :: task_env where
  "env_disposed_while_paused =
     plain_task ''task-1''
       [(selects ''click'' (JObj []))\<lparr>polls1 := [[CallDispose None], [], []]\<rparr>]"

text \<open>A second task: one wait of 1 second, then the terminal tool.\<close>

definition env_second_task :: task_env where
  "env_second_task =
     plain_task ''task-2''
       [selects ''wait'' (JObj [(''seconds'', JNum 1)]),
        selects ''done'' (JObj [(''success'', JBool True), (''text'', JStr ''X'')])]"

text \<open>The outputs recorded in the history that a call of \<^verbatim>\<open>execute\<close> returned.\<close>

definition returned_outputs ::
  "((error + ExecutionResult) \<times> PageAgent) option \<Rightarrow> string list" where
  "returned_outputs x =
     (case x of
        Some (Inr r, s) \<Rightarrow> map (\<lambda>h. action_output (action h)) (result_history r)
      | _ \<Rightarrow> [])"

text \<open>The run of \<open>env_done\<close>, with an after-task hook that throws when it is first called.\<close>

definition env_hook_throws :: task_env where
  "env_hook_throws = env_done\<lparr>after_task := Some ''Error: hook failed''\<rparr>"

text \<open>One step completes; the agent is disposed of during the second decision request.\<close>

definition env_disposed_later :: task_env where
  "env_disposed_later =
     plain_task ''task-1''
       [selects ''click'' (JObj []),
        (selects ''click'' (JObj []))\<lparr>during_llm := [CallDispose None]\<rparr>]"

text \<open>
  One step completes; during the second decision request the tool the model selects is
  deleted from the registry.
\<close>

definition env_tool_deleted :: task_env where
  "env_tool_deleted =
     plain_task ''task-1''
       [selects ''click'' (JObj []),
        (selects ''click'' (JObj []))\<lparr>during_llm := [DeleteTool ''click'']\<rparr>]"

section \<open>Evaluation of concrete runs\<close>

lemmas run_defs =
  execute_def begin_task_def new_AbortController_def abort_def emit_def
  step_body_def checkpoint_def aborted_def request_decision_def assembleUserPrompt_def
  invoke_def decode_def actionSchemas_def macro_execute_def dispatch_def run_tool_def
  tools_get_def first_key_def first_value_def account_wait_def wait_increment_def
  record_step_def finish_def conclude_def announce_task_def onDone_def dispose_def
  map_delete_def plain_task_def
  or_empty_def coalesce_def js_or_def opt_chain_def nullish_def
  agent0_def constructor_def deps0_def selects_def quiet_def decide_def usage0_def
  ok_tool_def failing_tool_def limit_message_def schema_mismatch_def done_count_def Let_def

lemmas env_defs =
  env_done_def env_limit_def env_undecodable_def env_done_empty_def env_done_blank_def
  env_tool_fails_def env_disposed_def env_waits_def env_disposed_while_paused_def
  env_second_task_def env_hook_throws_def env_disposed_later_def env_tool_deleted_def

section \<open>What a step leaves unchanged\<close>


lemma frame_refl: "frame 0 s s"
  by (simp add: frame_def)

lemma frame_trans:
  assumes "frame 0 s s1" and "frame n s1 s2"
  shows "frame n s s2"
proof -
  from assms have "fst ` set (tools s1) \<subseteq> fst ` set (tools s)"
    "fst ` set (tools s2) \<subseteq> fst ` set (tools s1)"
    by (simp_all add: frame_def)
  then have "fst ` set (tools s2) \<subseteq> fst ` set (tools s)" by (rule order_trans[rotated])
  with assms show ?thesis by (simp add: frame_def)
qed

lemma frame_weaken: "frame 0 s s' \<Longrightarrow> frame 1 s s'"
  by (simp add: frame_def)

lemma frame_emit: "ev \<noteq> PanelUpdate PCompleted \<Longrightarrow> frame 0 s (emit ev s)"
  by (simp add: frame_def emit_def done_count_def)

lemma nth_set_True: "i < length xs \<Longrightarrow> xs ! i \<Longrightarrow> xs[j := True] ! i"
  by (cases "i = j") simp_all

lemma frame_abort: "frame 0 s (abort s)"
  by (simp add: frame_def abort_def done_count_def nth_set_True)

lemma frame_dispose: "frame 0 s (dispose reason s)"
  by (simp add: frame_def dispose_def abort_def emit_def done_count_def nth_set_True)

lemma frame_apply_ext: "frame 0 s (apply_ext a s)"
proof (cases a)
  case (SetPaused b)
  then show ?thesis by (simp add: frame_def done_count_def)
next
  case (CallDispose reason)
  then show ?thesis by (simp add: frame_dispose)
next
  case (DeleteTool k)
  then show ?thesis by (auto simp: frame_def done_count_def map_delete_def)
qed

lemma frame_fold_ext: "frame 0 s (fold apply_ext acts s)"
proof (induction acts arbitrary: s)
  case Nil
  show ?case by (simp add: frame_refl)
next
  case (Cons a acts)
  have "frame 0 s (apply_ext a s)" by (rule frame_apply_ext)
  moreover have "frame 0 (apply_ext a s) (fold apply_ext acts (apply_ext a s))" by (rule Cons.IH)
  ultimately show ?case using frame_trans by simp
qed

lemma frame_waitUntil: "waitUntil check polls s = Some s' \<Longrightarrow> frame 0 s s'"
proof (induction polls arbitrary: s)
  case Nil
  then show ?case by (simp add: frame_refl split: if_splits)
next
  case (Cons acts rest)
  show ?case
  proof (cases "check s")
    case True
    with Cons.prems show ?thesis by (simp add: frame_refl)
  next
    case False
    with Cons.prems have "waitUntil check rest (fold apply_ext acts s) = Some s'" by simp
    then have "frame 0 (fold apply_ext acts s) s'" by (rule Cons.IH)
    with frame_fold_ext show ?thesis by (rule frame_trans)
  qed
qed

lemma frame_totalWaitTime: "frame 0 s (s\<lparr>totalWaitTime := w\<rparr>)"
  by (simp add: frame_def done_count_def)

lemma frame_account_wait:
  "account_wait d n v dur r s = Inr (r', s') \<Longrightarrow> frame 0 s s'"
  by (auto simp: account_wait_def Let_def frame_totalWaitTime split: if_splits sum.splits)

lemma frame_checkpoint: "checkpoint polls s = Some (Inr s') \<Longrightarrow> frame 0 s s'"
  by (auto simp: checkpoint_def frame_waitUntil split: if_splits)

lemma frame_run_tool: "frame 0 s (snd (run_tool d e inp t s))"
proof -
  let ?n = "first_key (mi_action inp)" and ?v = "first_value (mi_action inp)"
  let ?s3 = "emit (PanelUpdate (PToolExecuting ?n ?v)) s"
  let ?s4 = "fold apply_ext (during_tool e) ?s3"
  have "frame 0 s ?s3" by (simp add: frame_emit)
  then have f4: "frame 0 s ?s4" using frame_fold_ext frame_trans by blast
  show ?thesis
  proof (cases "execute_tool t (simplifiedHTML ?s3) ?v")
    case (Inl thrown)
    then have "snd (run_tool d e inp t s) = ?s4" by (simp add: run_tool_def Let_def)
    with f4 show ?thesis by simp
  next
    case (Inr r)
    show ?thesis
    proof (cases "account_wait d ?n ?v (duration e) r ?s4")
      case (Inl err)
      with Inr have "snd (run_tool d e inp t s) = ?s4" by (simp add: run_tool_def Let_def)
      with f4 show ?thesis by simp
    next
      case acc: (Inr p)
      obtain r' s5 where p: "p = (r', s5)" by (cases p)
      with Inr acc have "snd (run_tool d e inp t s) = fold apply_ext (during_delay e) s5"
        by (simp add: run_tool_def Let_def)
      moreover have "frame 0 ?s4 s5" using acc p frame_account_wait by blast
      ultimately show ?thesis using f4 frame_fold_ext frame_trans by metis
    qed
  qed
qed

lemma frame_dispatch: "frame 0 s (snd (dispatch d e inp s))"
proof -
  let ?s2 = "emit (PanelUpdate PThinking) s"
  have f2: "frame 0 s ?s2" by (simp add: frame_emit)
  show ?thesis
  proof (cases "tools_get ?s2 (first_key (mi_action inp))")
    case None
    then have "snd (dispatch d e inp s) = ?s2" by (simp add: dispatch_def Let_def)
    with f2 show ?thesis by simp
  next
    case (Some t)
    then have "snd (dispatch d e inp s) = snd (run_tool d e inp t ?s2)"
      by (simp add: dispatch_def Let_def)
    with f2 frame_run_tool frame_trans show ?thesis by metis
  qed
qed

lemma frame_macro_execute:
  assumes "macro_execute d e inp s = Some (x, s')"
  shows "frame 0 s s'"
proof (cases "checkpoint (polls2 e) s")
  case None
  with assms show ?thesis by (simp add: macro_execute_def)
next
  case (Some c)
  show ?thesis
  proof (cases c)
    case (Inl err)
    with assms Some have "s' = s" by (simp add: macro_execute_def)
    then show ?thesis by (simp add: frame_refl)
  next
    case (Inr s1)
    with assms Some have "s' = snd (dispatch d e inp s1)"
      by (simp add: macro_execute_def)
    moreover have "frame 0 s s1" using Some Inr frame_checkpoint by blast
    ultimately show ?thesis using frame_dispatch frame_trans by metis
  qed
qed

lemma frame_assembleUserPrompt: "frame 0 s (assembleUserPrompt d e s)"
  by (simp add: frame_def assembleUserPrompt_def emit_def done_count_def)

lemma frame_invoke:
  assumes "invoke d e s = Some (x, s')"
  shows "frame 0 s s'"
proof (cases "aborted s")
  case True
  with assms show ?thesis by (simp add: invoke_def frame_refl)
next
  case False
  let ?s1 = "fold apply_ext (during_llm e) s"
  have f1: "frame 0 s ?s1" by (rule frame_fold_ext)
  show ?thesis
  proof (cases "response e")
    case (Undecodable msg)
    with assms False have "s' = ?s1" by (simp add: invoke_def)
    with f1 show ?thesis by simp
  next
    case (ModelOutput raw u)
    show ?thesis
    proof (cases "decode (actionSchemas s) raw")
      case (Inl err)
      with assms False ModelOutput have "s' = ?s1" by (simp add: invoke_def)
      with f1 show ?thesis by simp
    next
      case (Inr inp)
      with assms False ModelOutput obtain y where "macro_execute d e inp ?s1 = Some (y, s')"
        by (auto simp: invoke_def split: option.splits sum.splits prod.splits)
      then have "frame 0 ?s1 s'" by (rule frame_macro_execute)
      with f1 show ?thesis by (rule frame_trans)
    qed
  qed
qed

lemma frame_record_step: "frame 1 s (snd (record_step k res u s))"
  by (simp add: record_step_def Let_def frame_def emit_def done_count_def)

lemma frame_request_decision:
  assumes "request_decision d e k s = Some (x, s')"
  shows "frame 1 s s'"
proof -
  let ?s3 = "assembleUserPrompt d e (emit (PanelUpdate PThinking) s)"
  have "frame 0 s (emit (PanelUpdate PThinking) s)" by (simp add: frame_emit)
  then have f3: "frame 0 s ?s3" using frame_assembleUserPrompt frame_trans by blast
  from assms obtain y s4 where i: "invoke d e ?s3 = Some (y, s4)"
    by (auto simp: request_decision_def split: option.splits)
  have f4: "frame 0 s s4" using f3 frame_invoke[OF i] by (rule frame_trans)
  show ?thesis
  proof (cases y)
    case (Inl err)
    with assms i have "s' = s4" by (simp add: request_decision_def)
    with f4 frame_weaken show ?thesis by blast
  next
    case (Inr p)
    obtain res u where "p = (res, u)" by (cases p)
    with assms i Inr have "s' = snd (record_step k res u s4)"
      by (auto simp: request_decision_def split: prod.splits option.splits)
    moreover have "frame 1 s (snd (record_step k res u s4))"
      using f4 frame_record_step by (rule frame_trans)
    ultimately show ?thesis by simp
  qed
qed

lemma frame_step_body:
  assumes "step_body d e k s = Some (x, s')"
  shows "frame 1 s s'"
proof -
  let ?s1 = "emit (OnBeforeStep k) s"
  have f1: "frame 0 s ?s1" by (simp add: frame_emit)
  show ?thesis
  proof (cases "before_step e")
    case (Some m)
    with assms have "s' = ?s1" by (simp add: step_body_def Let_def)
    with f1 frame_weaken show ?thesis by blast
  next
    case None
    show ?thesis
    proof (cases "checkpoint (polls1 e) ?s1")
      case nc: None
      with assms None show ?thesis by (simp add: step_body_def Let_def)
    next
      case (Some c)
      show ?thesis
      proof (cases c)
        case (Inl err)
        with assms None Some have "s' = ?s1" by (simp add: step_body_def Let_def)
        with f1 frame_weaken show ?thesis by blast
      next
        case (Inr s2)
        with assms None Some have "request_decision d e k s2 = Some (x, s')"
          by (simp add: step_body_def Let_def)
        then have "frame 1 s2 s'" by (rule frame_request_decision)
        moreover have "frame 0 ?s1 s2" using Some Inr frame_checkpoint by blast
        ultimately show ?thesis using f1 frame_trans by blast
      qed
    qed
  qed
qed

lemma conclude_result:
  "fst (conclude ok text s) = \<lparr>success = ok, data = text, result_history = history s\<rparr>"
  by (simp add: conclude_def Let_def onDone_def abort_def emit_def)

lemma conclude_state:
  "abortController (snd (conclude ok text s)) = abortController s \<and>
   length (signals (snd (conclude ok text s))) = length (signals s) \<and>
   done_count (snd (conclude ok text s)) = done_count s + 1 \<and>
   history (snd (conclude ok text s)) = history s \<and>
   totalWaitTime (snd (conclude ok text s)) = totalWaitTime s \<and>
   (abortController s < length (signals s) \<longrightarrow> aborted (snd (conclude ok text s)))"
  by (simp add: conclude_def Let_def onDone_def abort_def emit_def done_count_def aborted_def)

lemma finish_eq:
  "finish hook ok text s =
     ((case hook of None \<Rightarrow> Inr (fst (conclude ok text s)) | Some m \<Rightarrow> Inl (HookError m)),
      snd (conclude ok text s))"
  by (simp add: finish_def split: prod.splits option.splits)

lemma loop_steps_run:
  "steps_run d es k s = Some s1 \<Longrightarrow> k + length es \<le> MAX_STEPS d \<Longrightarrow>
   loop d hook (es @ rest) k s = loop d hook rest (k + length es) s1"
proof (induction es arbitrary: k s)
  case Nil
  then show ?case by simp
next
  case (Cons e es)
  from Cons.prems(1) obtain act s' where
    sb: "step_body d e k s = Some (Inr act, s')" and
    nd: "action_name act \<noteq> Some ''done''" and
    run: "steps_run d es (k + 1) s' = Some s1"
    by (auto split: option.splits sum.splits prod.splits if_splits)
  from Cons.prems(2) have le: "(k + 1) + length es \<le> MAX_STEPS d" by simp
  then have "\<not> k + 1 > MAX_STEPS d" by simp
  with sb nd have "loop d hook ((e # es) @ rest) k s = loop d hook (es @ rest) (k + 1) s'"
    by simp
  also have "\<dots> = loop d hook rest ((k + 1) + length es) s1" using run le by (rule Cons.IH)
  finally show ?case by simp
qed


lemma begin_task_facts:
  "abortController (begin_task t u s) = length (signals s) \<and>
   length (signals (begin_task t u s)) = length (signals s) + 1 \<and>
   \<not> aborted (begin_task t u s) \<and>
   done_count (begin_task t u s) = done_count s \<and>
   totalWaitTime (begin_task t u s) = totalWaitTime s \<and>
   tools (begin_task t u s) = tools s \<and>
   paused (begin_task t u s) = paused s \<and>
   history (begin_task t u s) = []"
  by (simp add: begin_task_def announce_task_def new_AbortController_def abort_def emit_def
      done_count_def aborted_def nth_append)

section \<open>Termination of a task\<close>




section \<open>The task boundary\<close>

text \<open>
  Claim C9. Called with an empty task string, \<^verbatim>\<open>execute\<close> throws the task-input error
  and the agent is exactly as it was before the call: ledger, controller, accumulator and
  task fields are untouched. Of the errors of the control loop it is the only one that
  \<^verbatim>\<open>execute\<close> throws: for a non-empty task, a call that ends returns a result, or throws
  what a lifecycle hook threw; it returns a result whenever the before-task hook and the
  after-task hook called by the \<^verbatim>\<open>catch\<close> handler return.
\<close>

theorem empty_task_rejected:
  "execute d env [] s = Some (Inl TaskInputError, s) \<and>
   (t \<noteq> [] \<longrightarrow> execute d env t s = Some (x, s') \<longrightarrow>
      (\<exists>r. x = Inr r) \<or> (\<exists>m. x = Inl (HookError m))) \<and>
   (t \<noteq> [] \<longrightarrow> before_task env = None \<longrightarrow> after_task_caught env = None \<longrightarrow>
      execute d env t s = Some (x, s') \<longrightarrow> (\<exists>r. x = Inr r))"
  by (auto simp: execute_def finish_eq split: option.splits sum.splits prod.splits)

theorem empty_task_rejected_witness:
  "execute deps0 env_done [] agent0 = Some (Inl TaskInputError, agent0) \<and>
   ''go'' \<noteq> [] \<and>
   (\<exists>r s'. execute deps0 env_done ''go'' agent0 = Some (Inr r, s')) \<and>
   (\<exists>s'. execute deps0 (env_done\<lparr>before_task := Some ''Error: not ready''\<rparr>) ''go'' agent0 =
           Some (Inl (HookError ''Error: not ready''), s'))"
proof -
  have "\<exists>x s'. execute deps0 env_done ''go'' agent0 = Some (x, s')"
    by (simp add: env_defs run_defs)
  then obtain x s' where e: "execute deps0 env_done ''go'' agent0 = Some (x, s')" by blast
  have h: "before_task env_done = None" "after_task_caught env_done = None"
    by (simp_all add: env_defs plain_task_def)
  have b: "\<exists>s'. execute deps0 (env_done\<lparr>before_task := Some ''Error: not ready''\<rparr>) ''go'' agent0 =
           Some (Inl (HookError ''Error: not ready''), s')"
    by (simp add: execute_def)
  from e h b empty_task_rejected[of deps0 env_done agent0 "''go''" x s'] show ?thesis by auto
qed

lemma execute_after_run:
  assumes "t \<noteq> []" and "before_task env = None" and "steps env = es @ e # rest"
    and "length es \<le> MAX_STEPS d"
    and "steps_run d es 0 (begin_task t (task_uid env) s) = Some s1"
  shows "execute d env t s =
     (case loop d (after_task env) (e # rest) (length es) s1 of
        None \<Rightarrow> None
      | Some (Inr r, s2) \<Rightarrow> Some (Inr r, s2)
      | Some (Inl err, s2) \<Rightarrow>
          Some (finish (after_task_caught env) (JBool False) (JStr (describe err)) s2))"
  using assms
    loop_steps_run[of d es 0 "begin_task t (task_uid env) s" s1 "after_task env" "e # rest"]
  by (simp add: execute_def)

text \<open>Without a disposal the ledger is only ever appended to.\<close>

lemma history_apply_ext: "\<not> is_dispose a \<Longrightarrow> history (apply_ext a s) = history s"
  by (cases a) simp_all

lemma history_fold_ext:
  "\<not> list_ex is_dispose acts \<Longrightarrow> history (fold apply_ext acts s) = history s"
  by (induction acts arbitrary: s) (simp_all add: history_apply_ext)

lemma history_waitUntil:
  "waitUntil check polls s = Some s' \<Longrightarrow> \<not> list_ex is_dispose (concat polls) \<Longrightarrow>
   history s' = history s"
proof (induction polls arbitrary: s)
  case Nil
  then show ?case by (simp split: if_splits)
next
  case (Cons acts rest)
  show ?case
  proof (cases "check s")
    case True
    with Cons.prems show ?thesis by simp
  next
    case False
    with Cons.prems have "waitUntil check rest (fold apply_ext acts s) = Some s'"
      "\<not> list_ex is_dispose (concat rest)" "\<not> list_ex is_dispose acts"
      by simp_all
    then show ?thesis using Cons.IH history_fold_ext by metis
  qed
qed

lemma history_checkpoint:
  "checkpoint polls s = Some (Inr s') \<Longrightarrow> \<not> list_ex is_dispose (concat polls) \<Longrightarrow>
   history s' = history s"
  by (auto simp: checkpoint_def history_waitUntil split: if_splits)

lemma history_account_wait:
  "account_wait d n v dur r s = Inr (r', s') \<Longrightarrow> history s' = history s"
  by (auto simp: account_wait_def Let_def split: if_splits sum.splits)

lemma history_run_tool:
  assumes "\<not> list_ex is_dispose (during_tool e)" and "\<not> list_ex is_dispose (during_delay e)"
  shows "history (snd (run_tool d e inp t s)) = history s"
proof -
  let ?n = "first_key (mi_action inp)" and ?v = "first_value (mi_action inp)"
  let ?s3 = "emit (PanelUpdate (PToolExecuting ?n ?v)) s"
  let ?s4 = "fold apply_ext (during_tool e) ?s3"
  have h4: "history ?s4 = history s"
    using assms(1) by (simp add: history_fold_ext emit_def)
  show ?thesis
  proof (cases "execute_tool t (simplifiedHTML ?s3) ?v")
    case (Inl thrown)
    then have "snd (run_tool d e inp t s) = ?s4" by (simp add: run_tool_def Let_def)
    with h4 show ?thesis by simp
  next
    case (Inr r)
    show ?thesis
    proof (cases "account_wait d ?n ?v (duration e) r ?s4")
      case (Inl err)
      with Inr have "snd (run_tool d e inp t s) = ?s4" by (simp add: run_tool_def Let_def)
      with h4 show ?thesis by simp
    next
      case acc: (Inr p)
      obtain r' s5 where p: "p = (r', s5)" by (cases p)
      with Inr acc have "snd (run_tool d e inp t s) = fold apply_ext (during_delay e) s5"
        by (simp add: run_tool_def Let_def)
      moreover have "history s5 = history ?s4" using acc p history_account_wait by blast
      ultimately show ?thesis using h4 assms(2) by (simp add: history_fold_ext)
    qed
  qed
qed

lemma history_dispatch:
  assumes "\<not> list_ex is_dispose (during_tool e)" and "\<not> list_ex is_dispose (during_delay e)"
  shows "history (snd (dispatch d e inp s)) = history s"
proof (cases "tools_get (emit (PanelUpdate PThinking) s) (first_key (mi_action inp))")
  case None
  then show ?thesis by (simp add: dispatch_def Let_def emit_def)
next
  case (Some t)
  then have "snd (dispatch d e inp s) = snd (run_tool d e inp t (emit (PanelUpdate PThinking) s))"
    by (simp add: dispatch_def Let_def)
  with history_run_tool[OF assms] show ?thesis by (simp add: emit_def)
qed

lemma undisposed_parts:
  assumes "undisposed e"
  shows "\<not> list_ex is_dispose (concat (polls1 e))" "\<not> list_ex is_dispose (during_llm e)"
    "\<not> list_ex is_dispose (concat (polls2 e))" "\<not> list_ex is_dispose (during_tool e)"
    "\<not> list_ex is_dispose (during_delay e)"
  using assms by (simp_all add: undisposed_def)

lemma history_macro_execute:
  assumes "macro_execute d e inp s = Some (x, s')" and "undisposed e"
  shows "history s' = history s"
proof (cases "checkpoint (polls2 e) s")
  case None
  with assms show ?thesis by (simp add: macro_execute_def)
next
  case (Some c)
  show ?thesis
  proof (cases c)
    case (Inl err)
    with assms Some show ?thesis by (simp add: macro_execute_def)
  next
    case (Inr s1)
    with assms Some have "s' = snd (dispatch d e inp s1)"
      by (simp add: macro_execute_def)
    moreover have "history s1 = history s"
      using Some Inr undisposed_parts(3)[OF assms(2)] history_checkpoint by blast
    ultimately show ?thesis
      using history_dispatch[OF undisposed_parts(4,5)[OF assms(2)]] by simp
  qed
qed

lemma history_invoke:
  assumes "invoke d e s = Some (x, s')" and "undisposed e"
  shows "history s' = history s"
proof (cases "aborted s")
  case True
  with assms show ?thesis by (simp add: invoke_def)
next
  case False
  let ?s1 = "fold apply_ext (during_llm e) s"
  have h1: "history ?s1 = history s"
    using undisposed_parts(2)[OF assms(2)] by (rule history_fold_ext)
  show ?thesis
  proof (cases "response e")
    case (Undecodable msg)
    with assms False have "s' = ?s1" by (simp add: invoke_def)
    with h1 show ?thesis by simp
  next
    case (ModelOutput raw u)
    show ?thesis
    proof (cases "decode (actionSchemas s) raw")
      case (Inl err)
      with assms False ModelOutput have "s' = ?s1" by (simp add: invoke_def)
      with h1 show ?thesis by simp
    next
      case (Inr inp)
      with assms False ModelOutput obtain y where "macro_execute d e inp ?s1 = Some (y, s')"
        by (auto simp: invoke_def split: option.splits sum.splits prod.splits)
      then have "history s' = history ?s1" using assms(2) by (rule history_macro_execute)
      with h1 show ?thesis by simp
    qed
  qed
qed

lemma history_record_step:
  "\<exists>rec. history (snd (record_step k res u s)) = history s @ [rec]"
  by (simp add: record_step_def Let_def emit_def)

lemma history_request_decision:
  assumes "request_decision d e k s = Some (x, s')" and "undisposed e"
  shows "(\<exists>rec. history s' = history s @ [rec]) \<or> (isl x \<and> history s' = history s)"
proof -
  let ?s3 = "assembleUserPrompt d e (emit (PanelUpdate PThinking) s)"
  have h3: "history ?s3 = history s" by (simp add: assembleUserPrompt_def emit_def)
  from assms obtain y s4 where i: "invoke d e ?s3 = Some (y, s4)"
    by (auto simp: request_decision_def split: option.splits)
  have h4: "history s4 = history s" using history_invoke[OF i assms(2)] h3 by simp
  show ?thesis
  proof (cases y)
    case (Inl err)
    with assms i have "s' = s4" "x = Inl err" by (simp_all add: request_decision_def)
    with h4 show ?thesis by simp
  next
    case (Inr p)
    obtain res u where "p = (res, u)" by (cases p)
    with assms i Inr have "s' = snd (record_step k res u s4)"
      by (auto simp: request_decision_def split: prod.splits option.splits)
    with h4 history_record_step[of k res u s4] show ?thesis by simp
  qed
qed

lemma history_step_body:
  assumes "step_body d e k s = Some (x, s')" and "undisposed e"
  shows "(\<exists>rec. history s' = history s @ [rec]) \<or> (isl x \<and> history s' = history s)"
proof -
  let ?s1 = "emit (OnBeforeStep k) s"
  have h1: "history ?s1 = history s" by (simp add: emit_def)
  show ?thesis
  proof (cases "before_step e")
    case (Some m)
    with assms have "s' = ?s1" "isl x" by (auto simp: step_body_def Let_def)
    with h1 show ?thesis by simp
  next
    case None
    show ?thesis
    proof (cases "checkpoint (polls1 e) ?s1")
      case nc: None
      with assms None show ?thesis by (simp add: step_body_def Let_def)
    next
      case (Some c)
      show ?thesis
      proof (cases c)
        case (Inl err)
        with assms None Some have "s' = ?s1" "isl x" by (auto simp: step_body_def Let_def)
        with h1 show ?thesis by simp
      next
        case (Inr s2)
        with assms None Some have r: "request_decision d e k s2 = Some (x, s')"
          by (simp add: step_body_def Let_def)
        have "history s2 = history s"
          using Some Inr undisposed_parts(1)[OF assms(2)] history_checkpoint h1 by metis
        with history_request_decision[OF r assms(2)] show ?thesis by simp
      qed
    qed
  qed
qed

lemma history_steps_run:
  "steps_run d es k s = Some s1 \<Longrightarrow> list_all undisposed es \<Longrightarrow>
   \<exists>recs. history s1 = history s @ recs \<and> length recs = length es"
proof (induction es arbitrary: k s)
  case Nil
  then show ?case by simp
next
  case (Cons e es)
  from Cons.prems(1) obtain act s' where
    sb: "step_body d e k s = Some (Inr act, s')" and
    run: "steps_run d es (k + 1) s' = Some s1"
    by (auto split: option.splits sum.splits prod.splits if_splits)
  from Cons.prems(2) have u: "undisposed e" "list_all undisposed es" by simp_all
  from history_step_body[OF sb u(1)] obtain rec where h: "history s' = history s @ [rec]"
    by auto
  from Cons.IH[OF run u(2)] obtain recs where
    "history s1 = history s' @ recs" "length recs = length es" by blast
  with h have "history s1 = history s @ (rec # recs)" "length (rec # recs) = length (e # es)"
    by simp_all
  then show ?case by blast
qed

text \<open>
  Against claim C4 as stated: one step completes and its record is in the ledger; during
  the second decision request the agent is disposed of, which aborts the controller and
  empties the ledger. The macro tool observes the cancellation, and the failure returned
  has an empty history, not the record accumulated so far.
\<close>

theorem disposal_empties_history_counterexample:
  "length (history (the (steps_run deps0 [selects ''click'' (JObj [])] 0
      (begin_task ''go'' ''task-1'' agent0)))) = 1 \<and>
   returned (execute deps0 env_disposed_later ''go'' agent0) =
     Some (JBool False, JStr ''Error: AbortError'', 0)"
  by (simp add: returned_def env_defs run_defs)

text \<open>
  Claim C4, as amended. Whatever is thrown inside the loop body, at whichever step, after
  any number of completed steps, is caught by \<^verbatim>\<open>execute\<close> and turned into a result with
  \<^verbatim>\<open>success = false\<close>, the rendering of the thrown value as data, and the ledger as it
  stands then as history. That result is returned when the after-task hook returns;
  otherwise what the hook throws reaches the caller, never what the loop threw. As long as
  the agent is not disposed of during the task, the ledger holds the records of all the
  steps completed so far; a disposal empties it.
\<close>

theorem loop_error_becomes_failure_result:
  assumes "t \<noteq> []" and "before_task env = None" and "steps env = es @ e # rest"
    and "length es \<le> MAX_STEPS d"
    and "steps_run d es 0 (begin_task t (task_uid env) s) = Some s1"
    and "step_body d e (length es) s1 = Some (Inl err, s2)"
  shows "(\<exists>s3. execute d env t s =
            Some ((case after_task_caught env of
                     None \<Rightarrow> Inr \<lparr>success = JBool False, data = JStr (describe err),
                                  result_history = history s2\<rparr>
                   | Some m \<Rightarrow> Inl (HookError m)), s3)) \<and>
         (list_all undisposed (es @ [e]) \<longrightarrow>
            length (history s1) = length es \<and> take (length es) (history s2) = history s1)"
proof -
  from assms(6) have "loop d (after_task env) (e # rest) (length es) s1 = Some (Inl err, s2)"
    by simp
  with execute_after_run[OF assms(1-5)]
  have "execute d env t s =
          Some (finish (after_task_caught env) (JBool False) (JStr (describe err)) s2)"
    by simp
  then have first: "\<exists>s3. execute d env t s =
            Some ((case after_task_caught env of
                     None \<Rightarrow> Inr \<lparr>success = JBool False, data = JStr (describe err),
                                  result_history = history s2\<rparr>
                   | Some m \<Rightarrow> Inl (HookError m)), s3)"
    by (simp add: finish_eq conclude_result split: option.splits)
  have second: "length (history s1) = length es \<and> take (length es) (history s2) = history s1"
    if u: "list_all undisposed (es @ [e])"
  proof -
    from u have ues: "list_all undisposed es" and ue: "undisposed e" by simp_all
    from history_steps_run[OF assms(5) ues] begin_task_facts[of t "task_uid env" s]
    have len: "length (history s1) = length es" by auto
    from history_step_body[OF assms(6) ue] have
      "(\<exists>rec. history s2 = history s1 @ [rec]) \<or> history s2 = history s1" by auto
    with len show ?thesis by auto
  qed
  from first second show ?thesis by blast
qed

theorem loop_error_witness:
  "(\<exists>h s3. execute deps0 env_undecodable ''go'' agent0 =
       Some (Inr \<lparr>success = JBool False,
                  data = JStr ''SyntaxError: Unexpected end of JSON input'',
                  result_history = h\<rparr>, s3) \<and> length h = 1) \<and>
   (\<exists>h s3. execute deps0 env_tool_fails ''go'' agent0 =
       Some (Inr \<lparr>success = JBool False, data = JStr ''Error: element not found'',
                  result_history = h\<rparr>, s3) \<and> length h = 1) \<and>
   (\<exists>h s3. execute deps0 env_tool_deleted ''go'' agent0 =
       Some (Inr \<lparr>success = JBool False,
                  data = JStr ''Error: Tool click not found. (@note should have been caught before this!!!)'',
                  result_history = h\<rparr>, s3) \<and> length h = 1) \<and>
   (\<exists>h s3. execute deps0 env_disposed ''go'' agent0 =
       Some (Inr \<lparr>success = JBool False, data = JStr ''Error: AbortError'',
                  result_history = h\<rparr>, s3) \<and> length h = 1) \<and>
   (\<exists>s3. execute deps0 (env_undecodable\<lparr>after_task_caught := Some ''Error: hook failed''\<rparr>)
            ''go'' agent0 = Some (Inl (HookError ''Error: hook failed''), s3)) \<and>
   list_all undisposed [selects ''click'' (JObj []), selects ''scroll'' (JObj [])] \<and>
   length (history (the (steps_run deps0 [selects ''click'' (JObj [])] 0
      (begin_task ''go'' ''task-1'' agent0)))) = 1 \<and>
   take 1 (history (snd (the (step_body deps0 (selects ''scroll'' (JObj [])) 1
      (the (steps_run deps0 [selects ''click'' (JObj [])] 0
         (begin_task ''go'' ''task-1'' agent0)))))))
     = history (the (steps_run deps0 [selects ''click'' (JObj [])] 0
         (begin_task ''go'' ''task-1'' agent0)))"
proof -
  let ?s0 = "begin_task ''go'' ''task-1'' agent0"
  let ?w = "selects ''wait'' (JObj [(''seconds'', JNum 2)])"
  let ?u = "quiet (Undecodable ''SyntaxError: Unexpected end of JSON input'')"
  let ?c = "selects ''click'' (JObj [])"
  let ?f = "selects ''scroll'' (JObj [])"
  let ?cd = "(selects ''click'' (JObj []))\<lparr>during_tool := [CallDispose None]\<rparr>"
  let ?ct = "(selects ''click'' (JObj []))\<lparr>during_llm := [DeleteTool ''click'']\<rparr>"
  let ?a1 = "the (steps_run deps0 [?w] 0 ?s0)"
  let ?a2 = "snd (the (step_body deps0 ?u 1 ?a1))"
  let ?b1 = "the (steps_run deps0 [?c] 0 ?s0)"
  let ?b2 = "snd (the (step_body deps0 ?f 1 ?b1))"
  let ?c1 = "the (steps_run deps0 [?cd] 0 ?s0)"
  let ?c2 = "snd (the (step_body deps0 ?c 1 ?c1))"
  let ?d2 = "snd (the (step_body deps0 ?ct 1 ?b1))"
  let ?envh = "env_undecodable\<lparr>after_task_caught := Some ''Error: hook failed''\<rparr>"
  have r2: "js_round 2 = 2"
    by (simp add: js_round_def) linarith
  have a: "(\<exists>s3. execute deps0 env_undecodable ''go'' agent0 =
          Some ((case after_task_caught env_undecodable of
                   None \<Rightarrow> Inr \<lparr>success = JBool False,
                     data = JStr (describe (DecodeError ''SyntaxError: Unexpected end of JSON input'')),
                     result_history = history ?a2\<rparr>
                 | Some m \<Rightarrow> Inl (HookError m)), s3)) \<and>
       (list_all undisposed ([?w] @ [?u]) \<longrightarrow>
          length (history ?a1) = length [?w] \<and> take (length [?w]) (history ?a2) = history ?a1)"
    by (rule loop_error_becomes_failure_result[where rest = "[]"])
       (simp_all add: env_defs run_defs r2)
  have a2: "length (history ?a2) = 1" by (simp add: run_defs r2)
  have b: "(\<exists>s3. execute deps0 env_tool_fails ''go'' agent0 =
          Some ((case after_task_caught env_tool_fails of
                   None \<Rightarrow> Inr \<lparr>success = JBool False,
                     data = JStr (describe (ToolExecutionError ''Error: element not found'')),
                     result_history = history ?b2\<rparr>
                 | Some m \<Rightarrow> Inl (HookError m)), s3)) \<and>
       (list_all undisposed ([?c] @ [?f]) \<longrightarrow>
          length (history ?b1) = length [?c] \<and> take (length [?c]) (history ?b2) = history ?b1)"
    by (rule loop_error_becomes_failure_result[where rest = "[]"])
       (simp_all add: env_defs run_defs)
  have b3: "length (history ?b2) = 1" by (simp add: run_defs)
  have c: "(\<exists>s3. execute deps0 env_tool_deleted ''go'' agent0 =
          Some ((case after_task_caught env_tool_deleted of
                   None \<Rightarrow> Inr \<lparr>success = JBool False,
                     data = JStr (describe (ToolNotFoundError (Some ''click''))),
                     result_history = history ?d2\<rparr>
                 | Some m \<Rightarrow> Inl (HookError m)), s3)) \<and>
       (list_all undisposed ([?c] @ [?ct]) \<longrightarrow>
          length (history ?b1) = length [?c] \<and> take (length [?c]) (history ?d2) = history ?b1)"
    by (rule loop_error_becomes_failure_result[where rest = "[]"])
       (simp_all add: env_defs run_defs)
  have c2: "length (history ?d2) = 1" by (simp add: run_defs)
  have d: "(\<exists>s3. execute deps0 env_disposed ''go'' agent0 =
          Some ((case after_task_caught env_disposed of
                   None \<Rightarrow> Inr \<lparr>success = JBool False, data = JStr (describe CancellationError),
                     result_history = history ?c2\<rparr>
                 | Some m \<Rightarrow> Inl (HookError m)), s3)) \<and>
       (list_all undisposed ([?cd] @ [?c]) \<longrightarrow>
          length (history ?c1) = length [?cd] \<and> take (length [?cd]) (history ?c2) = history ?c1)"
    by (rule loop_error_becomes_failure_result[where rest = "[]"])
       (simp_all add: env_defs run_defs)
  have d2: "length (history ?c2) = 1" by (simp add: run_defs)
  have e: "(\<exists>s3. execute deps0 ?envh ''go'' agent0 =
          Some ((case after_task_caught ?envh of
                   None \<Rightarrow> Inr \<lparr>success = JBool False,
                     data = JStr (describe (DecodeError ''SyntaxError: Unexpected end of JSON input'')),
                     result_history = history ?a2\<rparr>
                 | Some m \<Rightarrow> Inl (HookError m)), s3)) \<and>
       (list_all undisposed ([?w] @ [?u]) \<longrightarrow>
          length (history ?a1) = length [?w] \<and> take (length [?w]) (history ?a2) = history ?a1)"
    by (rule loop_error_becomes_failure_result[where rest = "[]"])
       (simp_all add: env_defs run_defs r2)
  have plain: "after_task_caught env_undecodable = None" "after_task_caught env_tool_fails = None"
    "after_task_caught env_tool_deleted = None" "after_task_caught env_disposed = None"
    by (simp_all add: env_defs plain_task_def)
  from a a2 plain(1) have g1: "\<exists>h s3. execute deps0 env_undecodable ''go'' agent0 =
       Some (Inr \<lparr>success = JBool False,
                  data = JStr ''SyntaxError: Unexpected end of JSON input'',
                  result_history = h\<rparr>, s3) \<and> length h = 1"
    by auto
  from b b3 plain(2) have g2: "\<exists>h s3. execute deps0 env_tool_fails ''go'' agent0 =
       Some (Inr \<lparr>success = JBool False, data = JStr ''Error: element not found'',
                  result_history = h\<rparr>, s3) \<and> length h = 1"
    by auto
  from c c2 plain(3) have g3: "\<exists>h s3. execute deps0 env_tool_deleted ''go'' agent0 =
       Some (Inr \<lparr>success = JBool False,
                  data = JStr ''Error: Tool click not found. (@note should have been caught before this!!!)'',
                  result_history = h\<rparr>, s3) \<and> length h = 1"
    by (auto simp: name_text_def)
  from d d2 plain(4) have g4: "\<exists>h s3. execute deps0 env_disposed ''go'' agent0 =
       Some (Inr \<lparr>success = JBool False, data = JStr ''Error: AbortError'',
                  result_history = h\<rparr>, s3) \<and> length h = 1"
    by auto
  from e have g5: "\<exists>s3. execute deps0 ?envh ''go'' agent0 =
       Some (Inl (HookError ''Error: hook failed''), s3)"
    by simp
  have u: "list_all undisposed ([?c] @ [?f])"
    by (simp add: undisposed_def selects_def quiet_def)
  with b have g6: "length (history ?b1) = 1 \<and> take 1 (history ?b2) = history ?b1"
    by simp
  from g1 g2 g3 g4 g5 g6 u show ?thesis by simp
qed

section \<open>The step ceiling\<close>



lemma click_step:
  assumes "\<not> aborted s" and "\<not> paused s" and "tools s = builtin_tools deps0"
  shows "\<exists>act s'. step_body d (selects ''click'' (JObj [])) k s = Some (Inr act, s') \<and>
           action_name act = Some ''click'' \<and>
           \<not> aborted s' \<and> \<not> paused s' \<and> tools s' = builtin_tools deps0 \<and>
           length (history s') = Suc (length (history s))"
  using assms
  by (simp add: step_body_def checkpoint_def aborted_def emit_def request_decision_def
      assembleUserPrompt_def invoke_def decode_def actionSchemas_def macro_execute_def
      dispatch_def run_tool_def tools_get_def first_key_def first_value_def account_wait_def
      record_step_def selects_def quiet_def decide_def deps0_def ok_tool_def Let_def)

lemma clicks_run:
  "\<not> aborted s \<Longrightarrow> \<not> paused s \<Longrightarrow> tools s = builtin_tools deps0 \<Longrightarrow>
   \<exists>s'. steps_run d (replicate n (selects ''click'' (JObj []))) k s = Some s' \<and>
        \<not> aborted s' \<and> \<not> paused s' \<and> tools s' = builtin_tools deps0 \<and>
        length (history s') = length (history s) + n"
proof (induction n arbitrary: k s)
  case 0
  then show ?case by simp
next
  case (Suc n)
  from click_step[OF Suc.prems, of d k] obtain act s1 where
    sb: "step_body d (selects ''click'' (JObj [])) k s = Some (Inr act, s1)" and
    nm: "action_name act = Some ''click''" and
    p: "\<not> aborted s1" "\<not> paused s1" "tools s1 = builtin_tools deps0" and
    len: "length (history s1) = Suc (length (history s))"
    by blast
  from Suc.IH[OF p, of "k + 1"] obtain s' where
    "steps_run d (replicate n (selects ''click'' (JObj []))) (k + 1) s1 = Some s'"
    "\<not> aborted s'" "\<not> paused s'" "tools s' = builtin_tools deps0"
    "length (history s') = length (history s1) + n"
    by blast
  with sb nm len show ?case by simp
qed

lemma loop_history_bound:
  "loop d hook es k s = Some (x, s') \<Longrightarrow> length (history s) \<le> k \<Longrightarrow> k \<le> MAX_STEPS d \<Longrightarrow>
   length (history s') \<le> MAX_STEPS d + 1 \<and> (\<forall>r. x = Inr r \<longrightarrow> result_history r = history s')"
proof (induction es arbitrary: k s)
  case Nil
  then show ?case by simp
next
  case (Cons e es)
  from Cons.prems(1) obtain y s1 where sb: "step_body d e k s = Some (y, s1)"
    by (auto split: option.splits)
  from frame_step_body[OF sb] Cons.prems(2) have len: "length (history s1) \<le> k + 1"
    by (simp add: frame_def)
  show ?case
  proof (cases y)
    case (Inl err)
    with Cons.prems sb have "x = Inl err" "s' = s1" by simp_all
    with len Cons.prems(3) show ?thesis by simp
  next
    case (Inr act)
    have ended: ?thesis if "(x, s') = finish hook ok tx s1" for ok tx
      using that len Cons.prems(3) conclude_state[of ok tx s1] conclude_result[of ok tx s1]
      by (auto simp: finish_eq split: option.splits)
    show ?thesis
    proof (cases "k + 1 > MAX_STEPS d")
      case True
      with Cons.prems sb Inr have "(x, s') = finish hook (JBool False) (JStr limit_message) s1"
        by simp
      then show ?thesis by (rule ended)
    next
      case False
      show ?thesis
      proof (cases "action_name act = Some ''done''")
        case True
        with Cons.prems sb Inr False have
          "(x, s') = finish hook
             (coalesce (opt_chain (action_input act) ''success'') (JBool False))
             (js_or (opt_chain (action_input act) ''text'') (JStr ''no text provided'')) s1"
          by simp
        then show ?thesis by (rule ended)
      next
        case nd: False
        with Cons.prems sb Inr False have "loop d hook es (k + 1) s1 = Some (x, s')" by simp
        from Cons.IH[OF this len] False show ?thesis by simp
      qed
    qed
  qed
qed

text \<open>
  What the code does guarantee: a returned history has at most \<^verbatim>\<open>MAX_STEPS + 1\<close>
  records.
\<close>

lemma execute_history_bound:
  assumes "execute d env t s = Some (Inr r, s')"
  shows "length (result_history r) \<le> MAX_STEPS d + 1"
proof -
  let ?s0 = "begin_task t (task_uid env) s"
  from assms have t: "t \<noteq> []" by (auto simp: execute_def)
  with assms have bt: "before_task env = None"
    by (auto simp: execute_def split: option.splits)
  with assms t obtain y s1 where
    l: "loop d (after_task env) (steps env) 0 ?s0 = Some (y, s1)"
    by (auto simp: execute_def split: option.splits)
  have "length (history ?s0) \<le> 0" using begin_task_facts[of t "task_uid env" s] by simp
  note b = loop_history_bound[OF l this]
  show ?thesis
  proof (cases y)
    case (Inl err)
    with assms t bt l have "r = fst (conclude (JBool False) (JStr (describe err)) s1)"
      by (auto simp: execute_def finish_eq split: option.splits)
    with b show ?thesis by (simp add: conclude_result)
  next
    case (Inr r')
    with assms t bt l have "r = r'" by (simp add: execute_def)
    with b Inr show ?thesis by simp
  qed
qed

text \<open>
  Claim C1, on the code, for every value \<open>M\<close> of \<^verbatim>\<open>MAX_STEPS\<close>: when the model
  selects \<^verbatim>\<open>click\<close> at every step, \<open>M + 1\<close> steps are run and recorded before the
  counter is found to exceed \<open>M\<close>. The history returned has \<open>M + 1\<close> records, one more
  than the maximum the claim states.
\<close>

theorem history_exceeds_max_steps:
  "returned
     (execute (deps0\<lparr>MAX_STEPS := M\<rparr>)
        (plain_task ''task-1'' (replicate (Suc M) (selects ''click'' (JObj []))))
        ''go'' agent0)
   = Some (JBool False, JStr ''Step count exceeded maximum limit'', Suc M)"
proof -
  let ?d = "deps0\<lparr>MAX_STEPS := M\<rparr>"
  let ?c = "selects ''click'' (JObj [])"
  let ?env = "plain_task ''task-1'' (replicate (Suc M) ?c)"
  let ?s0 = "begin_task ''go'' ''task-1'' agent0"
  have p0: "\<not> aborted ?s0" "\<not> paused ?s0" "tools ?s0 = builtin_tools deps0"
    "history ?s0 = []"
    using begin_task_facts[of "''go''" "''task-1''" agent0]
    by (simp_all add: agent0_def constructor_def)
  from clicks_run[OF p0(1-3), of ?d M 0] p0(4) obtain s1 where
    run: "steps_run ?d (replicate M ?c) 0 ?s0 = Some s1" and
    p1: "\<not> aborted s1" "\<not> paused s1" "tools s1 = builtin_tools deps0" and
    len1: "length (history s1) = M"
    by auto
  from click_step[OF p1, of ?d M] obtain act s2 where
    sb: "step_body ?d ?c M s1 = Some (Inr act, s2)" and
    len2: "length (history s2) = Suc (length (history s1))"
    by blast
  have split: "steps ?env = replicate M ?c @ ?c # []"
    by (simp add: plain_task_def replicate_append_same)
  have hooks: "before_task ?env = None" "after_task ?env = None"
    by (simp_all add: plain_task_def)
  have "execute ?d ?env ''go'' agent0 =
      (case loop ?d (after_task ?env) [?c] (length (replicate M ?c)) s1 of
         None \<Rightarrow> None
       | Some (Inr r, s2) \<Rightarrow> Some (Inr r, s2)
       | Some (Inl err, s2) \<Rightarrow>
           Some (finish (after_task_caught ?env) (JBool False) (JStr (describe err)) s2))"
    by (rule execute_after_run[OF _ hooks(1) split]) (use run in \<open>simp_all add: plain_task_def\<close>)
  moreover have "loop ?d (after_task ?env) [?c] (length (replicate M ?c)) s1 =
      Some (Inr (fst (conclude (JBool False) (JStr limit_message) s2)),
            snd (conclude (JBool False) (JStr limit_message) s2))"
    using sb hooks(2) by (simp add: finish_eq)
  ultimately show ?thesis
    using len1 len2 by (simp add: returned_def conclude_result limit_message_def)
qed

text \<open>
  In that run the last decision request announces a step beyond the maximum it states:
  with \<^verbatim>\<open>MAX_STEPS = 2\<close> the prompt says step 3 of 2 max possible steps.
\<close>

lemma last_request_beyond_max_steps:
  "MAX_STEPS deps0 = 2 \<and>
   UserPrompt 3 2 \<in> set (trace (snd (the (execute deps0
       (plain_task ''task-1'' (replicate 3 (selects ''click'' (JObj [])))) ''go'' agent0))))"
  by (simp add: numeral_3_eq_3 run_defs)

section \<open>The terminal tool\<close>




section \<open>The wait accumulator\<close>

lemma js_round_of_int: "js_round (of_int n) = n"
  by (simp add: js_round_def) linarith

lemma js_round_numeral: "js_round (numeral k) = numeral k"
  using js_round_of_int[of "numeral k"] by simp

lemma js_round_nearest: "\<bar>of_int (js_round x) - x\<bar> \<le> 1 / 2"
proof -
  have "of_int \<lfloor>x + 1 / 2\<rfloor> \<le> x + 1 / 2" by (rule of_int_floor_le)
  moreover have "x + 1 / 2 < of_int \<lfloor>x + 1 / 2\<rfloor> + 1" using floor_correct[of "x + 1 / 2"] by simp
  ultimately show ?thesis unfolding js_round_def by linarith
qed

lemma show_int_small: "show_int 2 = ''2''" "show_int 3 = ''3''"
  by code_simp+

text \<open>
  Against claim C2 as stated: a first task waits two seconds and then ends on a decode
  failure; when \<^verbatim>\<open>execute\<close> is called again, the accumulator is 2 before the first step
  of the second task, and a first wait of one second in that task is already told that
  three seconds have been waited, with the advice against waiting.
\<close>

theorem wait_time_carried_over_counterexample:
  "totalWaitTime
     (begin_task ''again'' ''task-2'' (snd (the (execute deps0 env_undecodable ''go'' agent0))))
   = Num 2 \<and>
   returned_outputs
     (execute deps0 env_second_task ''again''
        (snd (the (execute deps0 env_undecodable ''go'' agent0))))
   = [''ok'' @ [CHR 0x0A] @ ''<sys> You have waited 3 seconds accumulatively.'' @ [CHR 0x0A]
        @ ''Do NOT wait any longer unless you have a good reason.'' @ [CHR 0x0A] @ ''</sys>'',
      ''ok'']"
proof -
  have "js_round 2 = 2" "js_round 1 = 1"
    using js_round_numeral[of "num.Bit0 num.One"] js_round_of_int[of 1] by simp_all
  then show ?thesis
    by (simp add: returned_outputs_def env_defs run_defs wait_report_def wait_advice_def nl_def
        show_int_small)
qed

text \<open>
  Claim C2, as amended. What \<^verbatim>\<open>execute\<close> does before its first step leaves the wait
  accumulator as it was when \<^verbatim>\<open>execute\<close> was called: it is not reset at the start of a
  task, whatever its value. The accumulator is zero in a newly constructed agent.
\<close>

theorem wait_time_kept_by_execute:
  "totalWaitTime (begin_task t uid s) = totalWaitTime s \<and>
   totalWaitTime (constructor d cfg) = Num 0"
  by (simp add: begin_task_def announce_task_def new_AbortController_def abort_def emit_def
      constructor_def)

theorem wait_time_kept_witness:
  "totalWaitTime (begin_task ''again'' ''task-2'' (agent0\<lparr>totalWaitTime := Num 5\<rparr>)) = Num 5 \<and>
   totalWaitTime (begin_task ''again'' ''task-2'' (agent0\<lparr>totalWaitTime := NaN\<rparr>)) = NaN \<and>
   totalWaitTime (constructor deps0 \<lparr>customTools = [(''ask_user'', None)]\<rparr>) = Num 0"
  using wait_time_kept_by_execute[of "''again''" "''task-2''" "agent0\<lparr>totalWaitTime := Num 5\<rparr>"
      deps0 "\<lparr>customTools = [(''ask_user'', None)]\<rparr>"]
    wait_time_kept_by_execute[of "''again''" "''task-2''" "agent0\<lparr>totalWaitTime := NaN\<rparr>"
      deps0 "\<lparr>customTools = [(''ask_user'', None)]\<rparr>"]
  by simp

lemma totalWaitTime_apply_ext: "totalWaitTime (apply_ext a s) = totalWaitTime s"
  by (cases a) (simp_all add: dispose_def abort_def emit_def)

lemma totalWaitTime_fold_ext: "totalWaitTime (fold apply_ext acts s) = totalWaitTime s"
  by (induction acts arbitrary: s) (simp_all add: totalWaitTime_apply_ext)

lemma account_wait_wait:
  assumes "map_of fs ''seconds'' = Some (JNum q)" and "totalWaitTime s = Num a"
    and "\<bar>a + js_round (double d (q + double d (of_int dur / 1000)))\<bar> \<le> 2 ^ 53"
  shows "account_wait d (Some ''wait'') (JObj fs) dur r s =
     Inr (r @ [CHR 0x0A] @ ''<sys> You have waited ''
            @ show_int (a + js_round (double d (q + double d (of_int dur / 1000))))
            @ '' seconds accumulatively.''
            @ (if 3 \<le> a + js_round (double d (q + double d (of_int dur / 1000)))
               then [CHR 0x0A] @ ''Do NOT wait any longer unless you have a good reason.''
                      @ [CHR 0x0A]
               else [])
            @ ''</sys>'',
          s\<lparr>totalWaitTime := Num (a + js_round (double d (q + double d (of_int dur / 1000))))\<rparr>)"
proof -
  let ?w = "a + js_round (double d (q + double d (of_int dur / 1000)))"
  have "(2::int) ^ 53 < 10 ^ 21" by simp
  with assms(3) have small: "\<bar>?w\<bar> < 10 ^ 21" by linarith
  from assms(3) have sum: "js_plus d (Num a) (Num (js_round (double d (q + double d (of_int dur / 1000)))))
      = Num ?w"
    by simp
  show ?thesis
    using assms(1,2) small sum
    by (simp add: account_wait_def wait_increment_def nullish_def Let_def wait_report_def
        wait_advice_def nl_def)
qed

lemma account_wait_other:
  "n \<noteq> Some ''wait'' \<Longrightarrow> account_wait d n v dur r s = Inr (r, s\<lparr>totalWaitTime := Num 0\<rparr>)"
  by (simp add: account_wait_def)

lemma run_tool_returns:
  assumes "execute_tool t (simplifiedHTML s) (first_value (mi_action inp)) = Inr r"
    and "account_wait d (first_key (mi_action inp)) (first_value (mi_action inp)) (duration e) r
           (fold apply_ext (during_tool e)
             (emit (PanelUpdate (PToolExecuting (first_key (mi_action inp))
                                   (first_value (mi_action inp)))) s)) = Inr (r', s5)"
  shows "run_tool d e inp t s =
           (Inr \<lparr>mt_input = inp, mt_output = r'\<rparr>, fold apply_ext (during_delay e) s5)"
  using assms by (simp add: run_tool_def Let_def emit_def)

text \<open>
  Claim C7. When the tool that ran is \<^verbatim>\<open>wait\<close>, asked for \<open>q\<close> seconds, the accumulator
  grows by the sum \<open>x\<close> of \<open>q\<close> and the measured latency in seconds, as the engine computes
  it, rounded to a nearest integer, and the output gets the report of the accumulated time,
  followed by the advice not to wait any longer exactly when the accumulator has reached 3.
  The accumulated time is taken to be a whole number that a double holds exactly. When any
  other tool ran, the accumulator is zero afterwards and the output is the tool's own
  result, with nothing appended.
\<close>

theorem wait_accounting:
  assumes "execute_tool t (simplifiedHTML s) (first_value (mi_action inp)) = Inr r"
  shows "(first_key (mi_action inp) = Some ''wait'' \<longrightarrow>
          first_value (mi_action inp) = JObj fs \<longrightarrow>
          map_of fs ''seconds'' = Some (JNum q) \<longrightarrow>
          totalWaitTime s = Num a \<longrightarrow>
          \<bar>a + js_round (double d (q + double d (of_int (duration e) / 1000)))\<bar> \<le> 2 ^ 53 \<longrightarrow>
            (\<exists>x inc. x = double d (q + double d (of_int (duration e) / 1000)) \<and>
               inc = js_round x \<and>
               \<bar>of_int inc - x\<bar> \<le> 1 / 2 \<and>
               totalWaitTime (snd (run_tool d e inp t s)) = Num (a + inc) \<and>
               fst (run_tool d e inp t s) =
                 Inr \<lparr>mt_input = inp,
                      mt_output =
                        r @ [CHR 0x0A] @ ''<sys> You have waited '' @ show_int (a + inc)
                          @ '' seconds accumulatively.''
                          @ (if 3 \<le> a + inc
                             then [CHR 0x0A]
                                    @ ''Do NOT wait any longer unless you have a good reason.''
                                    @ [CHR 0x0A]
                             else [])
                          @ ''</sys>''\<rparr>)) \<and>
         (first_key (mi_action inp) \<noteq> Some ''wait'' \<longrightarrow>
            totalWaitTime (snd (run_tool d e inp t s)) = Num 0 \<and>
            fst (run_tool d e inp t s) = Inr \<lparr>mt_input = inp, mt_output = r\<rparr>)"
proof -
  let ?n = "first_key (mi_action inp)" and ?v = "first_value (mi_action inp)"
  let ?s4 = "fold apply_ext (during_tool e) (emit (PanelUpdate (PToolExecuting ?n ?v)) s)"
  let ?x = "double d (q + double d (of_int (duration e) / 1000))"
  have w: "totalWaitTime ?s4 = totalWaitTime s"
    by (simp add: totalWaitTime_fold_ext emit_def)
  have other: "totalWaitTime (snd (run_tool d e inp t s)) = Num 0 \<and>
      fst (run_tool d e inp t s) = Inr \<lparr>mt_input = inp, mt_output = r\<rparr>"
    if "?n \<noteq> Some ''wait''"
    using run_tool_returns[OF assms account_wait_other[OF that]]
    by (simp add: totalWaitTime_fold_ext)
  have wait: "totalWaitTime (snd (run_tool d e inp t s)) = Num (a + js_round ?x) \<and>
      fst (run_tool d e inp t s) =
        Inr \<lparr>mt_input = inp,
             mt_output =
               r @ [CHR 0x0A] @ ''<sys> You have waited '' @ show_int (a + js_round ?x)
                 @ '' seconds accumulatively.''
                 @ (if 3 \<le> a + js_round ?x
                    then [CHR 0x0A] @ ''Do NOT wait any longer unless you have a good reason.''
                           @ [CHR 0x0A]
                    else [])
                 @ ''</sys>''\<rparr>"
    if "?n = Some ''wait''" "?v = JObj fs" "map_of fs ''seconds'' = Some (JNum q)"
       "totalWaitTime s = Num a" "\<bar>a + js_round ?x\<bar> \<le> 2 ^ 53"
  proof -
    from that(4) w have "totalWaitTime ?s4 = Num a" by simp
    from account_wait_wait[OF that(3) this that(5), of r] that(1,2)
    have "account_wait d ?n ?v (duration e) r ?s4 =
       Inr (r @ [CHR 0x0A] @ ''<sys> You have waited '' @ show_int (a + js_round ?x)
              @ '' seconds accumulatively.''
              @ (if 3 \<le> a + js_round ?x
                 then [CHR 0x0A] @ ''Do NOT wait any longer unless you have a good reason.''
                        @ [CHR 0x0A]
                 else [])
              @ ''</sys>'',
            ?s4\<lparr>totalWaitTime := Num (a + js_round ?x)\<rparr>)"
      by simp
    from run_tool_returns[OF assms this] show ?thesis
      by (simp add: totalWaitTime_fold_ext)
  qed
  from other wait js_round_nearest[of ?x]
  show ?thesis by blast
qed

theorem wait_accounting_witness:
  "totalWaitTime
     (snd (run_tool deps0 (selects ''wait'' (JObj [(''seconds'', JNum 2)]))
             (decide ''wait'' (JObj [(''seconds'', JNum 2)])) ok_tool agent0)) = Num 2 \<and>
   totalWaitTime
     (snd (run_tool deps0 (selects ''wait'' (JObj [(''seconds'', JNum 1)]))
             (decide ''wait'' (JObj [(''seconds'', JNum 1)])) ok_tool
             (snd (run_tool deps0 (selects ''wait'' (JObj [(''seconds'', JNum 2)]))
                     (decide ''wait'' (JObj [(''seconds'', JNum 2)])) ok_tool agent0)))) = Num 3 \<and>
   fst (run_tool deps0 (selects ''wait'' (JObj [(''seconds'', JNum 1)]))
          (decide ''wait'' (JObj [(''seconds'', JNum 1)])) ok_tool
          (snd (run_tool deps0 (selects ''wait'' (JObj [(''seconds'', JNum 2)]))
                  (decide ''wait'' (JObj [(''seconds'', JNum 2)])) ok_tool agent0))) =
     Inr \<lparr>mt_input = decide ''wait'' (JObj [(''seconds'', JNum 1)]),
          mt_output =
            ''ok'' @ [CHR 0x0A] @ ''<sys> You have waited 3 seconds accumulatively.''
              @ [CHR 0x0A] @ ''Do NOT wait any longer unless you have a good reason.''
              @ [CHR 0x0A] @ ''</sys>''\<rparr> \<and>
   totalWaitTime
     (snd (run_tool deps0 (selects ''click'' (JObj [])) (decide ''click'' (JObj [])) ok_tool
             (agent0\<lparr>totalWaitTime := Num 3\<rparr>))) = Num 0 \<and>
   fst (run_tool deps0 (selects ''click'' (JObj [])) (decide ''click'' (JObj [])) ok_tool
          (agent0\<lparr>totalWaitTime := Num 3\<rparr>)) =
     Inr \<lparr>mt_input = decide ''click'' (JObj []), mt_output = ''ok''\<rparr> \<and>
   (\<exists>h s'. execute (deps0\<lparr>MAX_STEPS := 10\<rparr>) env_waits ''go'' agent0 =
        Some (Inr \<lparr>success = JBool True, data = JStr ''X'', result_history = h\<rparr>, s') \<and>
      map (action_output \<circ> action) h =
        [''ok'' @ [CHR 0x0A] @ ''<sys> You have waited 2 seconds accumulatively.</sys>'',
         ''ok'' @ [CHR 0x0A] @ ''<sys> You have waited 3 seconds accumulatively.''
           @ [CHR 0x0A] @ ''Do NOT wait any longer unless you have a good reason.''
           @ [CHR 0x0A] @ ''</sys>'',
         ''ok'', ''ok''])"
proof -
  let ?w2 = "selects ''wait'' (JObj [(''seconds'', JNum 2)])"
  let ?i2 = "decide ''wait'' (JObj [(''seconds'', JNum 2)])"
  let ?w1 = "selects ''wait'' (JObj [(''seconds'', JNum 1)])"
  let ?i1 = "decide ''wait'' (JObj [(''seconds'', JNum 1)])"
  let ?s1 = "snd (run_tool deps0 ?w2 ?i2 ok_tool agent0)"
  have r2: "js_round 2 = 2" "js_round 1 = 1"
    using js_round_numeral[of "num.Bit0 num.One"] js_round_of_int[of 1] by simp_all
  have id: "double deps0 x = x" for x
    by (simp add: deps0_def)
  have t: "execute_tool ok_tool pg v = Inr ''ok''" for pg v
    by (simp add: ok_tool_def)
  have z: "totalWaitTime agent0 = Num 0" by (simp add: agent0_def constructor_def)
  have k: "first_key (mi_action (decide n v)) = Some n"
    "first_value (mi_action (decide n v)) = v" for n v
    by (simp_all add: decide_def first_key_def first_value_def)
  have dur: "duration (selects n v) = 0" for n v
    by (simp add: selects_def quiet_def)
  note a = wait_accounting[OF t, where s = agent0 and inp = ?i2
      and fs = "[(''seconds'', JNum 2)]" and q = 2 and a = 0 and e = ?w2 and d = deps0]
  from a z r2 have first: "totalWaitTime ?s1 = Num 2"
    by (simp add: k dur id)
  note b = wait_accounting[OF t, where s = ?s1 and inp = ?i1
      and fs = "[(''seconds'', JNum 1)]" and q = 1 and a = 2 and e = ?w1 and d = deps0]
  from b first r2 have second:
    "totalWaitTime (snd (run_tool deps0 ?w1 ?i1 ok_tool ?s1)) = Num 3"
    "fst (run_tool deps0 ?w1 ?i1 ok_tool ?s1) =
       Inr \<lparr>mt_input = ?i1,
            mt_output =
              ''ok'' @ [CHR 0x0A] @ ''<sys> You have waited 3 seconds accumulatively.''
                @ [CHR 0x0A] @ ''Do NOT wait any longer unless you have a good reason.''
                @ [CHR 0x0A] @ ''</sys>''\<rparr>"
    by (simp_all add: k dur id show_int_small)
  note c = wait_accounting[OF t, where s = "agent0\<lparr>totalWaitTime := Num 3\<rparr>"
      and inp = "decide ''click'' (JObj [])"
      and e = "selects ''click'' (JObj [])" and d = deps0]
  from c have third:
    "totalWaitTime (snd (run_tool deps0 (selects ''click'' (JObj [])) (decide ''click'' (JObj []))
        ok_tool (agent0\<lparr>totalWaitTime := Num 3\<rparr>))) = Num 0"
    "fst (run_tool deps0 (selects ''click'' (JObj [])) (decide ''click'' (JObj [])) ok_tool
        (agent0\<lparr>totalWaitTime := Num 3\<rparr>)) =
       Inr \<lparr>mt_input = decide ''click'' (JObj []), mt_output = ''ok''\<rparr>"
    by (simp_all add: k)
  have run: "\<exists>h s'. execute (deps0\<lparr>MAX_STEPS := 10\<rparr>) env_waits ''go'' agent0 =
        Some (Inr \<lparr>success = JBool True, data = JStr ''X'', result_history = h\<rparr>, s') \<and>
      map (action_output \<circ> action) h =
        [''ok'' @ [CHR 0x0A] @ ''<sys> You have waited 2 seconds accumulatively.</sys>'',
         ''ok'' @ [CHR 0x0A] @ ''<sys> You have waited 3 seconds accumulatively.''
           @ [CHR 0x0A] @ ''Do NOT wait any longer unless you have a good reason.''
           @ [CHR 0x0A] @ ''</sys>'',
         ''ok'', ''ok'']"
    by (simp add: env_defs run_defs r2 wait_report_def wait_advice_def nl_def show_int_small)
  from first second third run show ?thesis by blast
qed

section \<open>The registry and the decision schema\<close>

lemma keys_map_delete: "fst ` set (map_delete k ts) = fst ` set ts - {k}"
  by (auto simp: map_delete_def)

lemma keys_map_set: "fst ` set (map_set k t ts) = insert k (fst ` set ts)"
  by (induction ts) auto

lemma keys_customize:
  "fst ` set (customize c ts) =
     (case snd c of None \<Rightarrow> fst ` set ts - {fst c} | Some t \<Rightarrow> insert (fst c) (fst ` set ts))"
  by (cases c; cases "snd c") (simp_all add: keys_map_delete keys_map_set)

lemma keys_fold_other:
  "n \<notin> fst ` set ct \<Longrightarrow>
   (n \<in> fst ` set (fold customize ct ts)) = (n \<in> fst ` set ts)"
proof (induction ct arbitrary: ts)
  case Nil
  show ?case by simp
next
  case (Cons c ct)
  from Cons.prems have ne: "n \<noteq> fst c" and rest: "n \<notin> fst ` set ct" by auto
  have "(n \<in> fst ` set (fold customize ct (customize c ts))) = (n \<in> fst ` set (customize c ts))"
    using rest by (rule Cons.IH)
  also have "\<dots> = (n \<in> fst ` set ts)"
    using ne by (simp add: keys_customize split: option.splits)
  finally show ?case by simp
qed

lemma keys_fold_removed:
  "(n, None) \<in> set ct \<Longrightarrow> distinct (map fst ct) \<Longrightarrow> n \<notin> fst ` set (fold customize ct ts)"
proof (induction ct arbitrary: ts)
  case Nil
  then show ?case by simp
next
  case (Cons c ct)
  show ?case
  proof (cases "c = (n, None)")
    case True
    from Cons.prems(2) True have "n \<notin> fst ` set ct" by simp
    then have "(n \<in> fst ` set (fold customize ct (customize c ts))) =
               (n \<in> fst ` set (customize c ts))"
      by (rule keys_fold_other)
    with True show ?thesis by (simp add: keys_map_delete)
  next
    case False
    with Cons.prems have "(n, None) \<in> set ct" "distinct (map fst ct)" by auto
    then have "n \<notin> fst ` set (fold customize ct (customize c ts))" by (rule Cons.IH)
    then show ?thesis by simp
  qed
qed

lemma dispatch_not_found:
  "n \<notin> fst ` set (tools s) \<Longrightarrow> first_key (mi_action inp) = Some n \<Longrightarrow>
   fst (dispatch d e inp s) = Inl (ToolNotFoundError (Some n))"
proof -
  assume a: "n \<notin> fst ` set (tools s)" and k: "first_key (mi_action inp) = Some n"
  from a have "map_of (tools s) n = None" by (simp add: map_of_eq_None_iff)
  with k show ?thesis by (simp add: dispatch_def Let_def tools_get_def emit_def)
qed

lemma macro_execute_not_found:
  assumes "n \<notin> fst ` set (tools s)" and "first_key (mi_action inp) = Some n"
    and "macro_execute d e inp s = Some (x, s')"
  shows "x = Inl (if aborted s then CancellationError else ToolNotFoundError (Some n))"
proof (cases "aborted s")
  case True
  with assms(3) show ?thesis by (simp add: macro_execute_def checkpoint_def)
next
  case False
  with assms(3) obtain s1 where c: "checkpoint (polls2 e) s = Some (Inr s1)"
    by (auto simp: macro_execute_def checkpoint_def split: option.splits)
  then have "fst ` set (tools s1) \<subseteq> fst ` set (tools s)"
    using frame_checkpoint by (simp add: frame_def)
  with assms(1) have "n \<notin> fst ` set (tools s1)" by blast
  from dispatch_not_found[OF this assms(2), of d e] assms(3) c False show ?thesis
    by (auto simp: macro_execute_def)
qed

text \<open>
  Claim C8. A configuration entry \<open>(n, None)\<close>, the null override, leaves no tool named
  \<open>n\<close> in the registry of the constructed agent, built-in or not. The action schemas
  are keyed by exactly the registered names, so \<open>n\<close> is not among them. A decision whose
  action key is \<open>n\<close> makes the macro tool fail with the tool-not-found error, on the new
  agent and on any later state with the same registry (where an aborted controller is
  reported first).
\<close>

theorem removed_tool_absent:
  assumes "(n, None) \<in> set (customTools cfg)" and "distinct (map fst (customTools cfg))"
  shows "n \<notin> fst ` set (tools (constructor d cfg)) \<and>
         map fst (actionSchemas (constructor d cfg)) = map fst (tools (constructor d cfg)) \<and>
         n \<notin> fst ` set (actionSchemas (constructor d cfg)) \<and>
         (first_key (mi_action inp) = Some n \<longrightarrow>
            (\<exists>s'. macro_execute d e inp (constructor d cfg) =
                    Some (Inl (ToolNotFoundError (Some n)), s'))) \<and>
         (tools s = tools (constructor d cfg) \<longrightarrow> first_key (mi_action inp) = Some n \<longrightarrow>
            macro_execute d e inp s = Some (x, s') \<longrightarrow>
              x = Inl (if aborted s then CancellationError else ToolNotFoundError (Some n)))"
proof -
  let ?a = "constructor d cfg"
  have absent: "n \<notin> fst ` set (tools ?a)"
    using keys_fold_removed[OF assms] by (simp add: constructor_def)
  have names: "map fst (actionSchemas ?a) = map fst (tools ?a)"
    by (simp add: actionSchemas_def comp_def)
  have schema: "n \<notin> fst ` set (actionSchemas ?a)"
    using absent names by (metis set_map)
  have fresh: "checkpoint (polls2 e) ?a = Some (Inr ?a)"
    by (cases "polls2 e") (simp_all add: checkpoint_def aborted_def constructor_def)
  have here: "\<exists>s'. macro_execute d e inp ?a = Some (Inl (ToolNotFoundError (Some n)), s')"
    if "first_key (mi_action inp) = Some n"
    using dispatch_not_found[OF absent that, of d e] fresh
    by (simp add: macro_execute_def) (metis prod.collapse)
  have later: "x = Inl (if aborted s then CancellationError else ToolNotFoundError (Some n))"
    if "tools s = tools ?a" "first_key (mi_action inp) = Some n"
       "macro_execute d e inp s = Some (x, s')"
    using macro_execute_not_found[OF _ that(2,3)] absent that(1) by simp
  from absent names schema here later show ?thesis by blast
qed

theorem removed_tool_witness:
  "''ask_user'' \<in> fst ` set (builtin_tools deps0) \<and>
   ''ask_user'' \<notin> fst ` set (tools (constructor deps0 \<lparr>customTools = [(''ask_user'', None)]\<rparr>)) \<and>
   map fst (actionSchemas (constructor deps0 \<lparr>customTools = [(''ask_user'', None)]\<rparr>)) =
     [''click'', ''wait'', ''done'', ''scroll''] \<and>
   (\<exists>s'. macro_execute deps0 (selects ''ask_user'' (JObj [])) (decide ''ask_user'' (JObj []))
            (constructor deps0 \<lparr>customTools = [(''ask_user'', None)]\<rparr>) =
          Some (Inl (ToolNotFoundError (Some ''ask_user'')), s')) \<and>
   describe (ToolNotFoundError (Some ''ask_user'')) =
     ''Error: Tool ask_user not found. (@note should have been caught before this!!!)''"
proof -
  let ?cfg = "\<lparr>customTools = [(''ask_user'', None :: tool option)]\<rparr>"
  have m: "(''ask_user'', None) \<in> set (customTools ?cfg)" "distinct (map fst (customTools ?cfg))"
    by simp_all
  have k: "first_key (mi_action (decide ''ask_user'' (JObj []))) = Some ''ask_user''"
    by (simp add: decide_def first_key_def)
  have l: "map fst (tools (constructor deps0 ?cfg)) = [''click'', ''wait'', ''done'', ''scroll'']"
    by (simp add: constructor_def deps0_def map_delete_def)
  from removed_tool_absent[OF m, of deps0 "decide ''ask_user'' (JObj [])"
      "selects ''ask_user'' (JObj [])"] k l
  show ?thesis by (simp add: deps0_def name_text_def)
qed

section \<open>The suspension points\<close>

lemma after_intervals_Cons:
  "after_intervals (take (Suc i) (acts # rest)) s = after_intervals (take i rest) (fold apply_ext acts s)"
  by (simp add: after_intervals_def)






end
